theory Spec2Isabelle
  imports Complex_Main "HOL-Library.Multiset"
begin

section \<open>JavaScript values used by the range-reconciliation engine\<close>

text \<open>
  Numbers are modelled as mathematical integers together with \<open>NaN\<close>: every number the
  transformers compute is obtained from decimal digit strings by \<open>+\<close>, \<open>-\<close> and
  comparison, which are exact on integers below \<open>2^53\<close>. Fractions, infinities and the
  rounding of larger values are outside the model. Strings are lists of characters
  (ASCII); \<open>trim\<close> removes ASCII white space and \<open>toUpperCase\<close> maps the ASCII letters.
  A \<open>Record<string, string>\<close> is a map from strings to strings. The sort keys
  \<open>rowIndex\<close> of the ERP transformer (\<open>i\<close>, \<open>i - 0.1\<close>, \<open>i + idx * 0.001\<close>) are
  rational numbers.
\<close>

datatype jsnum = Fin int | NaN

fun js_lt :: "jsnum \<Rightarrow> jsnum \<Rightarrow> bool" where
  "js_lt (Fin a) (Fin b) = (a < b)"
| "js_lt _ _ = False"

fun js_le :: "jsnum \<Rightarrow> jsnum \<Rightarrow> bool" where
  "js_le (Fin a) (Fin b) = (a \<le> b)"
| "js_le _ _ = False"

definition js_gt :: "jsnum \<Rightarrow> jsnum \<Rightarrow> bool" where
  "js_gt a b = js_lt b a"

fun js_add :: "jsnum \<Rightarrow> jsnum \<Rightarrow> jsnum" where
  "js_add (Fin a) (Fin b) = Fin (a + b)"
| "js_add _ _ = NaN"

fun js_sub :: "jsnum \<Rightarrow> jsnum \<Rightarrow> jsnum" where
  "js_sub (Fin a) (Fin b) = Fin (a - b)"
| "js_sub _ _ = NaN"

text \<open>Truthiness of a number: \<open>0\<close> and \<open>NaN\<close> are falsy.\<close>

fun truthy_num :: "jsnum \<Rightarrow> bool" where
  "truthy_num (Fin a) = (a \<noteq> 0)"
| "truthy_num NaN = False"

subsection \<open>Characters and digit strings\<close>

definition isDigit :: "char \<Rightarrow> bool" where
  "isDigit c = (48 \<le> (of_char c :: nat) \<and> (of_char c :: nat) \<le> 57)"

definition digitVal :: "char \<Rightarrow> nat" where
  "digitVal c = of_char c - 48"

definition digitChar :: "nat \<Rightarrow> char" where
  "digitChar d = ''0123456789'' ! d"

definition isSpace :: "char \<Rightarrow> bool" where
  "isSpace c = ((of_char c :: nat) = 32 \<or> (9 \<le> (of_char c :: nat) \<and> (of_char c :: nat) \<le> 13))"

text \<open>\<open>s.trim()\<close>\<close>

definition trim :: "string \<Rightarrow> string" where
  "trim s = rev (dropWhile isSpace (rev (dropWhile isSpace s)))"

text \<open>\<open>s.replace(/[^\d]/g, "")\<close>\<close>

definition digitsOnly :: "string \<Rightarrow> string" where
  "digitsOnly s = filter isDigit s"

text \<open>\<open>s.padStart(n, c)\<close> for a one-character pad string\<close>

definition padStart :: "nat \<Rightarrow> char \<Rightarrow> string \<Rightarrow> string" where
  "padStart n c s = replicate (n - length s) c @ s"

text \<open>\<open>s.slice(-n)\<close>: the last \<open>n\<close> characters, the whole string when it is shorter\<close>

definition sliceLast :: "nat \<Rightarrow> string \<Rightarrow> string" where
  "sliceLast n s = drop (length s - n) s"

text \<open>\<open>String(n)\<close> for an integer: its decimal numeral.\<close>

fun strNat :: "nat \<Rightarrow> string" where
  "strNat n = (if n < 10 then [digitChar n] else strNat (n div 10) @ [digitChar (n mod 10)])"

declare strNat.simps [simp del]

definition strInt :: "int \<Rightarrow> string" where
  "strInt i = (if i < 0 then CHR ''-'' # strNat (nat (- i)) else strNat (nat i))"

fun String_num :: "jsnum \<Rightarrow> string" where
  "String_num (Fin i) = strInt i"
| "String_num NaN = ''NaN''"

definition parseNat :: "string \<Rightarrow> nat" where
  "parseNat s = foldl (\<lambda>acc c. 10 * acc + digitVal c) 0 s"

text \<open>
  \<open>Number(s)\<close> on strings: white space is stripped, the empty string is \<open>0\<close>, an
  optionally signed decimal integer literal is its value, anything else is \<open>NaN\<close>
  (hexadecimal, fractional and exponent literals and \<open>Infinity\<close> are outside the
  model).
\<close>

definition Number_str :: "string \<Rightarrow> jsnum" where
  "Number_str s =
     (case trim s of
        [] \<Rightarrow> Fin 0
      | c # cs \<Rightarrow>
          if c = CHR ''-'' \<or> c = CHR ''+'' then
            (if cs \<noteq> [] \<and> list_all isDigit cs
             then Fin ((if c = CHR ''-'' then - 1 else 1) * int (parseNat cs))
             else NaN)
          else if list_all isDigit (c # cs) then Fin (int (parseNat (c # cs)))
          else NaN)"

section \<open>Return transformer: V1 exclusion (returnTransformer.ts)\<close>

record NumRange =
  nfrom :: jsnum
  nto :: jsnum

text \<open>\<open>pad7(n) = String(n).padStart(7, "0")\<close>\<close>

definition pad7 :: "jsnum \<Rightarrow> string" where
  "pad7 n = padStart 7 (CHR ''0'') (String_num n)"

definition overlaps :: "NumRange \<Rightarrow> NumRange \<Rightarrow> bool" where
  "overlaps a b = (\<not> (js_lt (nto b) (nfrom a) \<or> js_gt (nfrom b) (nto a)))"

text \<open>
  \<open>arr.sort((a, b) => a.from - b.from)\<close>: a stable sort by the comparator; an element is
  moved behind another only when the comparator is positive (a \<open>NaN\<close> difference counts
  as \<open>0\<close>).
\<close>

fun insertByFrom :: "NumRange \<Rightarrow> NumRange list \<Rightarrow> NumRange list" where
  "insertByFrom x [] = [x]"
| "insertByFrom x (y # ys) =
     (if js_gt (js_sub (nfrom x) (nfrom y)) (Fin 0) then y # insertByFrom x ys else x # y # ys)"

definition sortByFrom :: "NumRange list \<Rightarrow> NumRange list" where
  "sortByFrom xs = foldr insertByFrom xs []"

text \<open>The body of the inner loop of \<open>subtractRanges\<close>: what one remaining segment
  \<open>r\<close> contributes to \<open>next\<close> for the exclusion \<open>e\<close>.\<close>

definition cutSegment :: "NumRange \<Rightarrow> NumRange \<Rightarrow> NumRange list" where
  "cutSegment e r =
     (if \<not> overlaps r e then [r]
      else (if js_gt (nfrom e) (nfrom r)
            then [\<lparr>nfrom = nfrom r, nto = js_sub (nfrom e) (Fin 1)\<rparr>] else [])
         @ (if js_lt (nto e) (nto r)
            then [\<lparr>nfrom = js_add (nto e) (Fin 1), nto = nto r\<rparr>] else []))"

text \<open>The outer loop over the sorted exclusions, with its early \<open>break\<close>.\<close>

fun subtractLoop :: "NumRange list \<Rightarrow> NumRange list \<Rightarrow> NumRange list" where
  "subtractLoop remaining [] = remaining"
| "subtractLoop remaining (e # es) =
     (let next = concat (map (cutSegment e) remaining)
      in if next = [] then next else subtractLoop next es)"

definition subtractRanges :: "NumRange \<Rightarrow> NumRange list \<Rightarrow> NumRange list" where
  "subtractRanges base excludes =
     subtractLoop [base] (sortByFrom (filter (overlaps base) excludes))"

fun isFinite :: "jsnum \<Rightarrow> bool" where
  "isFinite (Fin a) = True"
| "isFinite NaN = False"

subsection \<open>Rows and V1 rows\<close>

datatype Cell = CStr string | CNum int | CNull

record ReturnRow =
  DealerCode :: string
  Game :: string
  Draw :: string
  Qty :: jsnum
  From :: string

text \<open>Optional fields of \<open>V1ExistingRow\<close> are \<open>None\<close> when absent.\<close>

record V1ExistingRow =
  v1DealerCode :: string
  v1Game :: "string option"
  v1Draw :: "string option"
  v1From :: string
  v1To :: "string option"
  v1Qty :: "jsnum option"

text \<open>First variant of the module (prefix policy).\<close>

definition normalizeBarcodeStringTo7 :: "string \<Rightarrow> string" where
  "normalizeBarcodeStringTo7 v =
     (let digits = digitsOnly v
      in if digits = [] then []
         else if length digits \<ge> 7 then sliceLast 7 digits
         else padStart 7 (CHR ''0'') digits)"

definition keyFor :: "ReturnRow \<Rightarrow> bool \<Rightarrow> string" where
  "keyFor row strict =
     (let dealer6 = padStart 6 (CHR ''0'') (digitsOnly (DealerCode row))
      in if \<not> strict then dealer6
         else dealer6 @ ''__'' @ trim (Game row) @ ''__'' @ trim (Draw row))"

definition orEmpty :: "string option \<Rightarrow> string" where
  "orEmpty x = (case x of None \<Rightarrow> [] | Some s \<Rightarrow> s)"

definition v1Key :: "V1ExistingRow \<Rightarrow> bool \<Rightarrow> string" where
  "v1Key r strict =
     (let dealer6 = padStart 6 (CHR ''0'') (digitsOnly (v1DealerCode r))
      in if strict then dealer6 @ ''__'' @ trim (orEmpty (v1Game r)) @ ''__'' @ trim (orEmpty (v1Draw r))
         else dealer6)"

text \<open>The normalised exclusion range of one V1 row; \<open>None\<close> where the loop
  \<open>continue\<close>s.\<close>

definition v1Range :: "V1ExistingRow \<Rightarrow> NumRange option" where
  "v1Range r =
     (let from7 = normalizeBarcodeStringTo7 (v1From r)
      in if from7 = [] then None
         else
           let fromN = Number_str from7
           in if \<not> isFinite fromN then None
              else
                let toN =
                  (if orEmpty (v1To r) \<noteq> [] then
                     (let n = Number_str (normalizeBarcodeStringTo7 (orEmpty (v1To r)))
                      in if isFinite n then Some n else None)
                   else
                     (case v1Qty r of
                        Some q \<Rightarrow> if js_gt q (Fin 0) then Some (js_add fromN (js_sub q (Fin 1))) else None
                      | None \<Rightarrow> None))
                in case toN of
                     None \<Rightarrow> None
                   | Some t \<Rightarrow>
                       Some (if js_le fromN t then \<lparr>nfrom = fromN, nto = t\<rparr>
                             else \<lparr>nfrom = t, nto = fromN\<rparr>))"

definition getOrEmpty :: "('k \<rightharpoonup> 'v list) \<Rightarrow> 'k \<Rightarrow> 'v list" where
  "getOrEmpty idx k = (case idx k of None \<Rightarrow> [] | Some arr \<Rightarrow> arr)"

definition indexStep :: "bool \<Rightarrow> (string \<rightharpoonup> NumRange list) \<Rightarrow> V1ExistingRow \<Rightarrow> (string \<rightharpoonup> NumRange list)" where
  "indexStep strict idx r =
     (case v1Range r of
        None \<Rightarrow> idx
      | Some nr \<Rightarrow> (let k = v1Key r strict in idx(k \<mapsto> getOrEmpty idx k @ [nr])))"

definition buildIndex :: "bool \<Rightarrow> V1ExistingRow list \<Rightarrow> (string \<rightharpoonup> NumRange list)" where
  "buildIndex strict v1 = foldl (indexStep strict) Map.empty v1"

definition sortIndex :: "(string \<rightharpoonup> NumRange list) \<Rightarrow> (string \<rightharpoonup> NumRange list)" where
  "sortIndex idx = (\<lambda>k. map_option sortByFrom (idx k))"

definition emitSegment :: "ReturnRow \<Rightarrow> NumRange \<Rightarrow> ReturnRow list" where
  "emitSegment row seg =
     (let qty = js_add (js_sub (nto seg) (nfrom seg)) (Fin 1)
      in if js_le qty (Fin 0) then []
         else [\<lparr>DealerCode = DealerCode row, Game = Game row, Draw = Draw row,
                 Qty = qty, From = pad7 (nfrom seg)\<rparr>])"

definition excludeRow :: "(string \<rightharpoonup> NumRange list) \<Rightarrow> bool \<Rightarrow> ReturnRow \<Rightarrow> ReturnRow list" where
  "excludeRow idx strict row =
     (let k = keyFor row strict;
          excludes = getOrEmpty idx k
      in if From row = [] \<or> \<not> truthy_num (Qty row) \<or> js_le (Qty row) (Fin 0) then []
         else
           let fromN = Number_str (From row);
               toN = js_add fromN (js_sub (Qty row) (Fin 1));
               leftovers = subtractRanges \<lparr>nfrom = fromN, nto = toN\<rparr> excludes
           in concat (map (emitSegment row) leftovers))"

definition applyV1Exclusion :: "ReturnRow list \<Rightarrow> V1ExistingRow list \<Rightarrow> bool \<Rightarrow> ReturnRow list" where
  "applyV1Exclusion rows v1 strictMatchGameDraw =
     (if v1 = [] then rows
      else
        let idx = sortIndex (buildIndex strictMatchGameDraw v1)
        in concat (map (excludeRow idx strictMatchGameDraw) rows))"

subsection \<open>Parsing return rows\<close>

fun String_cell :: "Cell \<Rightarrow> string" where
  "String_cell (CStr s) = s"
| "String_cell (CNum n) = strInt n"
| "String_cell CNull = ''null''"

definition hasE :: "string \<Rightarrow> bool" where
  "hasE s = (CHR ''e'' \<in> set s \<or> CHR ''E'' \<in> set s)"

text \<open>
  \<open>toDigitsString\<close>. For a text cell that matches \<open>/e/i\<close> the code reads the text with
  \<open>Number\<close> and returns \<open>String(Math.trunc(n))\<close> unless the reading is \<open>NaN\<close>. The
  parameter \<open>sci\<close> stands for that step: \<open>sci raw = Some txt\<close> when \<open>Number(raw)\<close> is not
  \<open>NaN\<close> and \<open>txt\<close> is the text \<open>String(Math.trunc(Number(raw)))\<close>, and \<open>None\<close> when it is
  \<open>NaN\<close>. The text need not consist of digits: for \<open>1e999\<close> it is \<open>Infinity\<close>, and for
  \<open>1e21\<close> it is \<open>1e+21\<close>. Every result below holds for every \<open>sci\<close>.
\<close>

definition toDigitsString :: "(string \<Rightarrow> string option) \<Rightarrow> Cell \<Rightarrow> string" where
  "toDigitsString sci v =
     (case v of
        CNull \<Rightarrow> []
      | CNum n \<Rightarrow> strInt n
      | CStr t \<Rightarrow>
          (let raw = trim t
           in if raw = [] then []
              else if hasE raw then (case sci raw of Some txt \<Rightarrow> txt | None \<Rightarrow> digitsOnly raw)
              else digitsOnly raw))"

definition isEmptyRow :: "Cell list \<Rightarrow> bool" where
  "isEmptyRow row = list_all (\<lambda>c. case c of CNull \<Rightarrow> True | _ \<Rightarrow> trim (String_cell c) = []) row"

definition upperChar :: "char \<Rightarrow> char" where
  "upperChar c =
     (case map_of (zip ''abcdefghijklmnopqrstuvwxyz'' ''ABCDEFGHIJKLMNOPQRSTUVWXYZ'') c of
        Some u \<Rightarrow> u | None \<Rightarrow> c)"

definition toUpperCase :: "string \<Rightarrow> string" where
  "toUpperCase s = map upperChar s"

text \<open>\<open>s.includes(sub)\<close>\<close>

fun str_includes :: "string \<Rightarrow> string \<Rightarrow> bool" where
  "str_includes [] sub = (sub = [])"
| "str_includes (c # cs) sub = (take (length sub) (c # cs) = sub \<or> str_includes cs sub)"

definition rowContainsTotal :: "Cell list \<Rightarrow> bool" where
  "rowContainsTotal row =
     list_ex (\<lambda>c. case c of CStr s \<Rightarrow> str_includes (toUpperCase s) ''TOTAL'' | _ \<Rightarrow> False) row"

text \<open>The cached dealer configuration after \<open>loadDealerConfig\<close>.\<close>

record DealerConfig =
  cachedMaster :: string
  cachedAliases :: "string \<rightharpoonup> string"

text \<open>
  \<open>normalizeDealerCodeDynamic\<close>. The alias table is a plain object read with
  \<open>cachedAliases?.[code]\<close>; the map holds its own properties. The two agree on every key
  that is not the name of a property every object inherits (\<open>valueOf\<close>, \<open>toString\<close>,
  \<open>constructor\<close>, ...), so on every key made of digits, which is what the row parsers pass.
  For an inherited name the code returns the inherited value, which is not a string; such
  keys are outside this definition.
\<close>

definition normalizeDealerCodeDynamic :: "(string \<rightharpoonup> string) \<Rightarrow> string \<Rightarrow> string" where
  "normalizeDealerCodeDynamic aliases input =
     (let code = padStart 6 (CHR ''0'') input
      in case aliases code of Some t \<Rightarrow> t | None \<Rightarrow> code)"

definition detectDealerCode_ret :: "(string \<Rightarrow> string option) \<Rightarrow> (string \<rightharpoonup> string) \<Rightarrow> Cell list \<Rightarrow> string option" where
  "detectDealerCode_ret sci aliases row =
     (case find (\<lambda>cell. length (toDigitsString sci cell) = 5 \<or> length (toDigitsString sci cell) = 6) row of
        None \<Rightarrow> None
      | Some cell \<Rightarrow> Some (normalizeDealerCodeDynamic aliases (toDigitsString sci cell)))"

definition qtyCandidate :: "(string \<Rightarrow> string option) \<Rightarrow> Cell \<Rightarrow> bool" where
  "qtyCandidate sci c =
     (let digits = toDigitsString sci c
      in length digits > 0 \<and> length digits \<le> 5 \<and> Number_str digits \<noteq> NaN)"

definition detectFromAndQty :: "(string \<Rightarrow> string option) \<Rightarrow> Cell list \<Rightarrow> Cell option \<times> jsnum option" where
  "detectFromAndQty sci row =
     (find (\<lambda>cell. length (toDigitsString sci cell) \<ge> 7) row,
      map_option (\<lambda>c. Number_str (toDigitsString sci c)) (find (qtyCandidate sci) (rev row)))"

text \<open>First variant: a short barcode gets the two-digit default prefix.\<close>

definition normalizeBarcodeTo7 :: "(string \<Rightarrow> string option) \<Rightarrow> Cell \<Rightarrow> string \<Rightarrow> string" where
  "normalizeBarcodeTo7 sci v defaultPrefix2 =
     (let digits = toDigitsString sci v
      in if digits = [] then []
         else
           let prefix = take 2 (digitsOnly defaultPrefix2)
           in if length digits \<ge> 7 then sliceLast 7 digits
              else sliceLast 7 (padStart 7 (CHR ''0'') (prefix @ digits)))"

text \<open>Second variant: the first \<open>trimDigits\<close> digits are removed.\<close>

definition trimDigitsFromString :: "string \<Rightarrow> int \<Rightarrow> string" where
  "trimDigitsFromString digits trimDigits =
     (let t = max 0 trimDigits
      in if t \<le> 0 then digits
         else if digits = [] then []
         else if int (length digits) \<le> t then []
         else drop (nat t) digits)"

definition normalizeBarcodeTo7_trim :: "(string \<Rightarrow> string option) \<Rightarrow> Cell \<Rightarrow> int \<Rightarrow> string" where
  "normalizeBarcodeTo7_trim sci v trimDigits =
     (let rawDigits = toDigitsString sci v
      in if rawDigits = [] then []
         else
           let trimmed = trimDigitsFromString rawDigits trimDigits
           in if trimmed = [] then []
              else if length trimmed \<ge> 7 then sliceLast 7 trimmed
              else padStart 7 (CHR ''0'') trimmed)"

fun cellTruthy :: "Cell \<Rightarrow> bool" where
  "cellTruthy (CStr s) = (s \<noteq> [])"
| "cellTruthy (CNum n) = (n \<noteq> 0)"
| "cellTruthy CNull = False"

definition parseReturnRow ::
  "(string \<Rightarrow> string option) \<Rightarrow> (string \<rightharpoonup> string) \<Rightarrow> Cell list \<Rightarrow> string \<Rightarrow> string \<Rightarrow> string \<Rightarrow> ReturnRow option" where
  "parseReturnRow sci aliases row gameName draw defaultPrefix2 =
     (if isEmptyRow row then None
      else if rowContainsTotal row then None
      else
        case detectDealerCode_ret sci aliases row of
          None \<Rightarrow> None
        | Some dealer \<Rightarrow>
            if dealer = [] then None
            else
              (case detectFromAndQty sci row of
                 (Some fromCell, Some qty) \<Rightarrow>
                   if \<not> cellTruthy fromCell then None
                   else Some \<lparr>DealerCode = dealer, Game = gameName, Draw = draw, Qty = qty,
                              From = normalizeBarcodeTo7 sci fromCell defaultPrefix2\<rparr>
               | _ \<Rightarrow> None))"

definition buildReturnRows ::
  "(string \<Rightarrow> string option) \<Rightarrow> (string \<rightharpoonup> string) \<Rightarrow> Cell list list \<Rightarrow> string \<Rightarrow> string \<Rightarrow> string
     \<Rightarrow> V1ExistingRow list \<Rightarrow> bool \<Rightarrow> ReturnRow list" where
  "buildReturnRows sci aliases data gameName draw defaultPrefix2 v1Existing strict =
     (let parsed = List.map_filter (\<lambda>row. parseReturnRow sci aliases row gameName draw defaultPrefix2) data
      in applyV1Exclusion parsed v1Existing strict)"

subsection \<open>V1 exclusion in the second variant (trim policy)\<close>

definition normalizeBarcodeStringTo7_trim :: "string \<Rightarrow> int \<Rightarrow> string" where
  "normalizeBarcodeStringTo7_trim v trimDigits =
     (let digits = digitsOnly v
      in if digits = [] then []
         else
           let trimmed = trimDigitsFromString digits trimDigits
           in if trimmed = [] then []
              else if length trimmed \<ge> 7 then sliceLast 7 trimmed
              else padStart 7 (CHR ''0'') trimmed)"

definition v1Range_trim :: "int \<Rightarrow> V1ExistingRow \<Rightarrow> NumRange option" where
  "v1Range_trim trimDigits r =
     (let from7 = normalizeBarcodeStringTo7_trim (v1From r) trimDigits
      in if from7 = [] then None
         else
           let fromN = Number_str from7
           in if \<not> isFinite fromN then None
              else
                let toN =
                  (if orEmpty (v1To r) \<noteq> [] then
                     (let n = Number_str (normalizeBarcodeStringTo7_trim (orEmpty (v1To r)) trimDigits)
                      in if isFinite n then Some n else None)
                   else
                     (case v1Qty r of
                        Some q \<Rightarrow> if js_gt q (Fin 0) then Some (js_add fromN (js_sub q (Fin 1))) else None
                      | None \<Rightarrow> None))
                in case toN of
                     None \<Rightarrow> None
                   | Some t \<Rightarrow>
                       Some (if js_le fromN t then \<lparr>nfrom = fromN, nto = t\<rparr>
                             else \<lparr>nfrom = t, nto = fromN\<rparr>))"

definition indexStep_trim ::
  "bool \<Rightarrow> int \<Rightarrow> (string \<rightharpoonup> NumRange list) \<Rightarrow> V1ExistingRow \<Rightarrow> (string \<rightharpoonup> NumRange list)" where
  "indexStep_trim strict trimDigits idx r =
     (case v1Range_trim trimDigits r of
        None \<Rightarrow> idx
      | Some nr \<Rightarrow> (let k = v1Key r strict in idx(k \<mapsto> getOrEmpty idx k @ [nr])))"

text \<open>The row loop of the second variant skips a row whose From is not a finite number.\<close>

definition excludeRow_trim :: "(string \<rightharpoonup> NumRange list) \<Rightarrow> bool \<Rightarrow> ReturnRow \<Rightarrow> ReturnRow list" where
  "excludeRow_trim idx strict row =
     (let k = keyFor row strict;
          excludes = getOrEmpty idx k
      in if From row = [] \<or> \<not> truthy_num (Qty row) \<or> js_le (Qty row) (Fin 0) then []
         else
           let fromN = Number_str (From row)
           in if \<not> isFinite fromN then []
              else
                let toN = js_add fromN (js_sub (Qty row) (Fin 1));
                    leftovers = subtractRanges \<lparr>nfrom = fromN, nto = toN\<rparr> excludes
                in concat (map (emitSegment row) leftovers))"

definition applyV1Exclusion_trim ::
  "ReturnRow list \<Rightarrow> V1ExistingRow list \<Rightarrow> bool \<Rightarrow> int \<Rightarrow> ReturnRow list" where
  "applyV1Exclusion_trim rows v1 strictMatchGameDraw trimDigits =
     (if v1 = [] then rows
      else
        let idx = sortIndex (foldl (indexStep_trim strictMatchGameDraw trimDigits) Map.empty v1)
        in concat (map (excludeRow_trim idx strictMatchGameDraw) rows))"

text \<open>\<open>parseReturnRow\<close> and \<open>buildReturnRows\<close> of the second variant: a row whose
  normalised barcode is empty is not parsed.\<close>

definition parseReturnRow_trim ::
  "(string \<Rightarrow> string option) \<Rightarrow> (string \<rightharpoonup> string) \<Rightarrow> Cell list \<Rightarrow> string \<Rightarrow> string \<Rightarrow> int \<Rightarrow> ReturnRow option" where
  "parseReturnRow_trim sci aliases row gameName draw trimDigits =
     (if isEmptyRow row then None
      else if rowContainsTotal row then None
      else
        case detectDealerCode_ret sci aliases row of
          None \<Rightarrow> None
        | Some dealer \<Rightarrow>
            if dealer = [] then None
            else
              (case detectFromAndQty sci row of
                 (Some fromCell, Some qty) \<Rightarrow>
                   if \<not> cellTruthy fromCell then None
                   else
                     let from7 = normalizeBarcodeTo7_trim sci fromCell trimDigits
                     in if from7 = [] then None
                        else Some \<lparr>DealerCode = dealer, Game = gameName, Draw = draw, Qty = qty,
                                   From = from7\<rparr>
               | _ \<Rightarrow> None))"

definition buildReturnRows_trim ::
  "(string \<Rightarrow> string option) \<Rightarrow> (string \<rightharpoonup> string) \<Rightarrow> Cell list list \<Rightarrow> string \<Rightarrow> string \<Rightarrow> int
     \<Rightarrow> V1ExistingRow list \<Rightarrow> bool \<Rightarrow> ReturnRow list" where
  "buildReturnRows_trim sci aliases data gameName draw trimDigits v1Existing strict =
     (let parsed = List.map_filter (\<lambda>row. parseReturnRow_trim sci aliases row gameName draw trimDigits) data
      in applyV1Exclusion_trim parsed v1Existing strict trimDigits)"

section \<open>Static dealer configuration (dealerConfig.ts, first version)\<close>

definition MASTER_DEALER_CODE :: string where
  "MASTER_DEALER_CODE = ''030520''"

definition dealerAliasMap :: "string \<rightharpoonup> string" where
  "dealerAliasMap = [''030589'' \<mapsto> MASTER_DEALER_CODE, ''030802'' \<mapsto> MASTER_DEALER_CODE]"

definition normalizeDealerCode :: "string \<Rightarrow> string" where
  "normalizeDealerCode raw =
     (let code = trim raw
      in if code = [] then code
         else
           let code6 = padStart 6 (CHR ''0'') (digitsOnly code)
           in case dealerAliasMap code6 of Some t \<Rightarrow> t | None \<Rightarrow> code6)"

section \<open>ERP transformer (erpTransformer.ts)\<close>

record BreakingSegment =
  segStart :: int
  segEnd :: int

record InternalRow =
  rowIndex :: rat
  iDealerCode :: string
  iGame :: string
  iDraw :: string
  iQty :: int
  iFrom :: int
  iTo :: int

text \<open>The rows returned by the version with trimming and optional gap filling.\<close>

record StructuredRowInternal =
  sDealerCode :: string
  sGame :: string
  sDraw :: string
  sFrom :: int
  sTo :: int
  sQty :: int

text \<open>The rows returned by the version in \<open>app/lib/erpTransformer.ts\<close>.\<close>

record StructuredRow =
  vDealerCode :: string
  vGame :: string
  vDraw :: string
  vQty :: int

record DealerRow =
  drRowIndex :: nat
  dealerCode :: string
  toBarcode :: int

definition toNumber :: "Cell \<Rightarrow> int option" where
  "toNumber v =
     (case v of
        CNull \<Rightarrow> None
      | _ \<Rightarrow>
          (let cleaned = filter (\<lambda>ch. isDigit ch \<or> ch = CHR ''-'') (String_cell v)
           in if cleaned = [] then None
              else case Number_str cleaned of NaN \<Rightarrow> None | Fin n \<Rightarrow> Some n))"

definition trimBarcodeNumber :: "int \<Rightarrow> int \<Rightarrow> int option" where
  "trimBarcodeNumber n trimDigits =
     (let t = max 0 trimDigits;
          s = strInt n
      in if t = 0 then Some n
         else if int (length s) \<le> t then None
         else
           let cut = drop (nat t) s;
               cleaned = dropWhile (\<lambda>c. c = CHR ''0'') cut
           in if cleaned = [] then Some 0
              else case Number_str cleaned of NaN \<Rightarrow> None | Fin m \<Rightarrow> Some m)"

text \<open>The first loop of \<open>detectDealerCode\<close>: the text of the first number with 5 or 6
  characters.\<close>

fun dealerScan :: "Cell list \<Rightarrow> string option" where
  "dealerScan [] = None"
| "dealerScan (cell # rest) =
     (case toNumber cell of
        None \<Rightarrow> dealerScan rest
      | Some n \<Rightarrow>
          if length (strInt n) = 5 \<or> length (strInt n) = 6 then Some (strInt n)
          else dealerScan rest)"

definition detectDealerCode :: "DealerConfig \<Rightarrow> Cell list \<Rightarrow> string option" where
  "detectDealerCode cfg row =
     (case dealerScan row of
        Some s \<Rightarrow> Some (normalizeDealerCodeDynamic (cachedAliases cfg) s)
      | None \<Rightarrow>
          if list_ex (\<lambda>cell. case cell of CStr s \<Rightarrow> str_includes s ''?'' | _ \<Rightarrow> False) row
          then Some (cachedMaster cfg) else None)"

text \<open>The numbers of a row that look like barcodes (at least 7 characters), in row order.\<close>

definition barcodeNums :: "Cell list \<Rightarrow> int list" where
  "barcodeNums row =
     List.map_filter (\<lambda>c. case toNumber c of
                             None \<Rightarrow> None
                           | Some n \<Rightarrow> if length (strInt n) \<ge> 7 then Some n else None) row"

text \<open>\<open>{ from: nums[0] ?? null, to: nums[1] ?? null }\<close>\<close>

fun firstTwo :: "int list \<Rightarrow> int option \<times> int option" where
  "firstTwo [] = (None, None)"
| "firstTwo [a] = (Some a, None)"
| "firstTwo (a # b # _) = (Some a, Some b)"

text \<open>\<open>detectBarcodes\<close> of \<open>app/lib/erpTransformer.ts\<close>\<close>

definition detectBarcodes :: "Cell list \<Rightarrow> int option \<times> int option" where
  "detectBarcodes row = firstTwo (sort (barcodeNums row))"

text \<open>\<open>detectBarcodes\<close> of the earlier, synchronous version of the module\<close>

definition detectBarcodes_sync :: "Cell list \<Rightarrow> int option \<times> int option" where
  "detectBarcodes_sync row =
     (let nums = barcodeNums row
      in if nums = [] then (None, None)
         else
           let sorted = sort nums
           in (Some (sorted ! 0), if length sorted > 1 then Some (sorted ! 1) else None))"

text \<open>\<open>detectBarcodes\<close> of the version with trimming\<close>

definition detectBarcodes_trim :: "Cell list \<Rightarrow> int \<Rightarrow> int option \<times> int option" where
  "detectBarcodes_trim row trimDigits =
     firstTwo (sort (List.map_filter (\<lambda>n. trimBarcodeNumber n trimDigits) (barcodeNums row)))"

definition hasHashMarker :: "Cell list \<Rightarrow> bool" where
  "hasHashMarker row = list_ex (\<lambda>c. case c of CStr s \<Rightarrow> str_includes s ''#'' | _ \<Rightarrow> False) row"

definition splitBySegments ::
  "string \<Rightarrow> int \<Rightarrow> int \<Rightarrow> string \<Rightarrow> string \<Rightarrow> rat \<Rightarrow> BreakingSegment list \<Rightarrow> InternalRow list" where
  "splitBySegments dc fromBarcode toBarcode' gameName drawDate baseIndex segments =
     (if segments = [] then
        [\<lparr>rowIndex = baseIndex, iDealerCode = dc, iGame = gameName, iDraw = drawDate,
          iQty = toBarcode' - fromBarcode + 1, iFrom = fromBarcode, iTo = toBarcode'\<rparr>]
      else
        concat (map (\<lambda>(idx, seg).
                  let start = max fromBarcode (segStart seg);
                      end' = min toBarcode' (segEnd seg)
                  in if start \<le> end' then
                       [\<lparr>rowIndex = baseIndex + of_nat idx * (1 / 1000), iDealerCode = dc,
                         iGame = gameName, iDraw = drawDate,
                         iQty = end' - start + 1, iFrom = start, iTo = end'\<rparr>]
                     else [])
                (enumerate 0 segments)))"

subsection \<open>Game name and draw date\<close>

text \<open>\<open>s.replace(pat, rep)\<close> with a string pattern: the first occurrence only\<close>

fun replaceFirst :: "string \<Rightarrow> string \<Rightarrow> string \<Rightarrow> string" where
  "replaceFirst pat rep [] = (if pat = [] then rep else [])"
| "replaceFirst pat rep (c # cs) =
     (if take (length pat) (c # cs) = pat then rep @ drop (length pat) (c # cs)
      else c # replaceFirst pat rep cs)"

definition isItemCell :: "Cell \<Rightarrow> bool" where
  "isItemCell c = (case c of CStr s \<Rightarrow> str_includes s ''ITEM :'' | _ \<Rightarrow> False)"

text \<open>The inner loop over the cells of one row stops at the first cell with the marker.\<close>

definition rowGame :: "Cell list \<Rightarrow> string" where
  "rowGame row =
     (case find isItemCell row of
        None \<Rightarrow> []
      | Some c \<Rightarrow> trim (replaceFirst ''ITEM :'' [] (String_cell c)))"

text \<open>The outer loop stops at the first row that gave a non-empty name.\<close>

definition detectGame :: "string option \<Rightarrow> Cell list list \<Rightarrow> string" where
  "detectGame gameNameOverride data =
     (let g = trim (orEmpty gameNameOverride)
      in if g \<noteq> [] then g
         else case find (\<lambda>n. n \<noteq> []) (map rowGame data) of None \<Rightarrow> [] | Some n \<Rightarrow> n)"

definition isDateAt :: "string \<Rightarrow> bool" where
  "isDateAt s =
     (length s \<ge> 10 \<and> list_all isDigit (take 4 s) \<and> s ! 4 = CHR ''-'' \<and>
      list_all isDigit (take 2 (drop 5 s)) \<and> s ! 7 = CHR ''-'' \<and> list_all isDigit (take 2 (drop 8 s)))"

text \<open>\<open>cell.match(/\d{4}-\d{2}-\d{2}/)\<close>: the leftmost match\<close>

fun matchDate :: "string \<Rightarrow> string option" where
  "matchDate [] = None"
| "matchDate (c # cs) = (if isDateAt (c # cs) then Some (take 10 (c # cs)) else matchDate cs)"

text \<open>The draw-date loops have no \<open>break\<close>: the last cell with a date wins.\<close>

definition detectDraw :: "Cell list list \<Rightarrow> string" where
  "detectDraw data =
     foldl (\<lambda>drawDate cell.
              case cell of
                CStr s \<Rightarrow> (if str_includes s ''DRAW DATE''
                            then (case matchDate s of Some m \<Rightarrow> m | None \<Rightarrow> drawDate)
                            else drawDate)
              | _ \<Rightarrow> drawDate)
           [] (concat data)"

definition finalDraw :: "string option \<Rightarrow> string \<Rightarrow> string" where
  "finalDraw drawDateOverride drawDate =
     (if trim (orEmpty drawDateOverride) \<noteq> [] then trim (orEmpty drawDateOverride)
      else if trim drawDate \<noteq> [] then trim drawDate
      else [])"

subsection \<open>The builders\<close>

text \<open>One iteration of the main loop: the entry of \<open>dealerRows\<close> and the rows pushed to
  \<open>out\<close>; \<open>None\<close> where the loop \<open>continue\<close>s.\<close>

definition mainRow ::
  "DealerConfig \<Rightarrow> BreakingSegment list \<Rightarrow> string \<Rightarrow> string \<Rightarrow> int \<Rightarrow> nat \<times> Cell list
     \<Rightarrow> (DealerRow \<times> InternalRow list) option" where
  "mainRow cfg segments gameName drawDate trimDigits ir =
     (case detectDealerCode cfg (snd ir) of
        None \<Rightarrow> None
      | Some dealer \<Rightarrow>
          if dealer = [] then None
          else
            (case detectBarcodes_trim (snd ir) trimDigits of
               (Some f, Some t) \<Rightarrow>
                 Some (\<lparr>drRowIndex = fst ir, dealerCode = dealer, toBarcode = t\<rparr>,
                       splitBySegments dealer f t gameName drawDate (of_nat (fst ir)) segments)
             | _ \<Rightarrow> None))"

text \<open>\<open>dealerRows.filter((d) => d.rowIndex < i).sort((a, b) => b.rowIndex - a.rowIndex)[0]\<close>\<close>

definition prevDealer :: "DealerRow list \<Rightarrow> nat \<Rightarrow> DealerRow option" where
  "prevDealer dealerRows i =
     (case sort_key (\<lambda>d. - int (drRowIndex d)) (filter (\<lambda>d. drRowIndex d < i) dealerRows) of
        [] \<Rightarrow> None
      | p # _ \<Rightarrow> Some p)"

definition masterDealer :: "DealerConfig \<Rightarrow> string" where
  "masterDealer cfg =
     padStart 6 (CHR ''0'') (if cachedMaster cfg = [] then ''030520'' else cachedMaster cfg)"

text \<open>One iteration of the gap loop of the version with gap filling: the gap goes to the
  master dealer.\<close>

definition gapRow ::
  "DealerConfig \<Rightarrow> DealerRow list \<Rightarrow> BreakingSegment list \<Rightarrow> string \<Rightarrow> string \<Rightarrow> int
     \<Rightarrow> nat \<times> Cell list \<Rightarrow> InternalRow list" where
  "gapRow cfg dealerRows segments gameName drawDate trimDigits ir =
     (if \<not> hasHashMarker (snd ir) then []
      else
        case fst (detectBarcodes_trim (snd ir) trimDigits) of
          None \<Rightarrow> []
        | Some nextStart \<Rightarrow>
            (case prevDealer dealerRows (fst ir) of
               None \<Rightarrow> []
             | Some prev \<Rightarrow>
                 let gapFrom = toBarcode prev + 1;
                     gapTo = nextStart - 1;
                     gapQty = gapTo - gapFrom + 1
                 in if gapQty \<le> 0 then []
                    else splitBySegments (masterDealer cfg) gapFrom gapTo gameName drawDate
                           (of_nat (fst ir) - 1 / 10) segments))"

definition toStructuredInternal :: "InternalRow \<Rightarrow> StructuredRowInternal" where
  "toStructuredInternal r =
     \<lparr>sDealerCode = iDealerCode r, sGame = iGame r, sDraw = iDraw r,
      sFrom = iFrom r, sTo = iTo r, sQty = iQty r\<rparr>"

text \<open>\<open>buildStructuredRows\<close> of the version with trimming and optional gap filling.\<close>

definition buildStructuredRows ::
  "DealerConfig \<Rightarrow> Cell list list \<Rightarrow> BreakingSegment list \<Rightarrow> string option \<Rightarrow> bool \<Rightarrow> string option \<Rightarrow> int
     \<Rightarrow> StructuredRowInternal list" where
  "buildStructuredRows cfg data breakingSegments gameNameOverride gapFillEnabled drawDateOverride trimDigits =
     (let gameName = detectGame gameNameOverride data;
          finalDrawDate = finalDraw drawDateOverride (detectDraw data);
          mainPass = List.map_filter (mainRow cfg breakingSegments gameName finalDrawDate trimDigits)
                       (enumerate 0 data);
          dealerRows = map fst mainPass;
          outMain = concat (map snd mainPass);
          outGap = (if gapFillEnabled
                    then concat (map (gapRow cfg dealerRows breakingSegments gameName finalDrawDate trimDigits)
                                   (enumerate 0 data))
                    else [])
      in map toStructuredInternal (sort_key rowIndex (outMain @ outGap)))"

text \<open>The version in \<open>app/lib/erpTransformer.ts\<close>: no trimming, no draw-date override, and
  the gap goes to the dealer of the preceding dealer row.\<close>

definition mainRow_basic ::
  "DealerConfig \<Rightarrow> BreakingSegment list \<Rightarrow> string \<Rightarrow> string \<Rightarrow> nat \<times> Cell list
     \<Rightarrow> (DealerRow \<times> InternalRow list) option" where
  "mainRow_basic cfg segments gameName drawDate ir =
     (case detectDealerCode cfg (snd ir) of
        None \<Rightarrow> None
      | Some dealer \<Rightarrow>
          if dealer = [] then None
          else
            (case detectBarcodes (snd ir) of
               (Some f, Some t) \<Rightarrow>
                 Some (\<lparr>drRowIndex = fst ir, dealerCode = dealer, toBarcode = t\<rparr>,
                       splitBySegments dealer f t gameName drawDate (of_nat (fst ir)) segments)
             | _ \<Rightarrow> None))"

definition gapRow_basic ::
  "DealerRow list \<Rightarrow> BreakingSegment list \<Rightarrow> string \<Rightarrow> string \<Rightarrow> nat \<times> Cell list \<Rightarrow> InternalRow list" where
  "gapRow_basic dealerRows segments gameName drawDate ir =
     (if \<not> hasHashMarker (snd ir) then []
      else
        case fst (detectBarcodes (snd ir)) of
          None \<Rightarrow> []
        | Some nextStart \<Rightarrow>
            (case prevDealer dealerRows (fst ir) of
               None \<Rightarrow> []
             | Some prev \<Rightarrow>
                 let gapQty = nextStart - toBarcode prev - 1
                 in if gapQty \<le> 0 then []
                    else
                      let gapFrom = toBarcode prev + 1;
                          gapTo = nextStart - 1
                      in splitBySegments (dealerCode prev) gapFrom gapTo gameName drawDate
                           (of_nat (fst ir) - 1 / 10) segments))"

definition toStructured :: "InternalRow \<Rightarrow> StructuredRow" where
  "toStructured r = \<lparr>vDealerCode = iDealerCode r, vGame = iGame r, vDraw = iDraw r, vQty = iQty r\<rparr>"

definition buildStructuredRows_basic ::
  "DealerConfig \<Rightarrow> Cell list list \<Rightarrow> BreakingSegment list \<Rightarrow> string option \<Rightarrow> StructuredRow list" where
  "buildStructuredRows_basic cfg data breakingSegments gameNameOverride =
     (let gameName = detectGame gameNameOverride data;
          drawDate = detectDraw data;
          mainPass = List.map_filter (mainRow_basic cfg breakingSegments gameName drawDate) (enumerate 0 data);
          dealerRows = map fst mainPass;
          outMain = concat (map snd mainPass);
          outGap = concat (map (gapRow_basic dealerRows breakingSegments gameName drawDate) (enumerate 0 data))
      in map toStructured (sort_key rowIndex (outMain @ outGap)))"

section \<open>Availability blocks (upload page)\<close>

record AvailabilityBlock =
  blockId :: string
  blockFrom :: string
  blockTo :: string

text \<open>The version with trimming: the blocks are sorted by their start.\<close>

definition blockSegment_trim :: "int \<Rightarrow> AvailabilityBlock \<Rightarrow> BreakingSegment option" where
  "blockSegment_trim trimDigits b =
     (case (toNumber (CStr (blockFrom b)), toNumber (CStr (blockTo b))) of
        (Some fromNumRaw, Some toNumRaw) \<Rightarrow>
          (case (trimBarcodeNumber fromNumRaw trimDigits, trimBarcodeNumber toNumRaw trimDigits) of
             (Some fromNum, Some toNum) \<Rightarrow>
               if fromNum \<le> toNum then Some \<lparr>segStart = fromNum, segEnd = toNum\<rparr> else None
           | _ \<Rightarrow> None)
      | _ \<Rightarrow> None)"

definition buildAvailabilitySegments :: "AvailabilityBlock list \<Rightarrow> int \<Rightarrow> BreakingSegment list" where
  "buildAvailabilitySegments blocks trimDigits =
     sort_key segStart (List.map_filter (blockSegment_trim trimDigits) blocks)"

text \<open>The version in \<open>app/lib/uploadService.ts\<close>: the sorted blocks are merged.\<close>

definition blockSegment :: "AvailabilityBlock \<Rightarrow> BreakingSegment option" where
  "blockSegment b =
     (case (toNumber (CStr (blockFrom b)), toNumber (CStr (blockTo b))) of
        (Some fromNum, Some toNum) \<Rightarrow>
          if fromNum \<le> toNum then Some \<lparr>segStart = fromNum, segEnd = toNum\<rparr> else None
      | _ \<Rightarrow> None)"

fun mergeLoop :: "BreakingSegment list \<Rightarrow> BreakingSegment list \<Rightarrow> BreakingSegment list" where
  "mergeLoop merged [] = merged"
| "mergeLoop merged (seg # rest) =
     (if merged = [] then mergeLoop [seg] rest
      else
        let l = last merged
        in if segStart seg \<le> segEnd l + 1
           then mergeLoop (butlast merged @ [l\<lparr>segEnd := max (segEnd l) (segEnd seg)\<rparr>]) rest
           else mergeLoop (merged @ [seg]) rest)"

definition buildAvailabilitySegments_merged :: "AvailabilityBlock list \<Rightarrow> BreakingSegment list" where
  "buildAvailabilitySegments_merged blocks =
     (let raw = List.map_filter blockSegment blocks
      in if raw = [] then [] else mergeLoop [] (sort_key segStart raw))"

section \<open>Notions used to state the properties\<close>

text \<open>A well-formed range has integer bounds with \<open>from \<le> to\<close>; its tickets are the
  integers it covers.\<close>

definition wfRange :: "NumRange \<Rightarrow> bool" where
  "wfRange r =
     (case nfrom r of
        Fin a \<Rightarrow> (case nto r of Fin b \<Rightarrow> a \<le> b | NaN \<Rightarrow> False)
      | NaN \<Rightarrow> False)"

definition tickets :: "NumRange \<Rightarrow> int set" where
  "tickets r =
     (case nfrom r of
        Fin a \<Rightarrow> (case nto r of Fin b \<Rightarrow> {a..b} | NaN \<Rightarrow> {})
      | NaN \<Rightarrow> {})"

definition before :: "NumRange \<Rightarrow> NumRange \<Rightarrow> bool" where
  "before a b = (\<forall>x \<in> tickets a. \<forall>y \<in> tickets b. x < y)"

text \<open>\<open>s.endsWith(suf)\<close>\<close>

definition endsWith :: "string \<Rightarrow> string \<Rightarrow> bool" where
  "endsWith s suf = (length suf \<le> length s \<and> drop (length s - length suf) s = suf)"

text \<open>An alias table is resolved when every alias target is a code of at least six
  digits that is not itself an alias.\<close>

definition aliasesResolved :: "(string \<rightharpoonup> string) \<Rightarrow> bool" where
  "aliasesResolved m =
     (\<forall>k t. m k = Some t \<longrightarrow> 6 \<le> length t \<and> list_all isDigit t \<and> m t = None)"

text \<open>A row whose \<open>From\<close> reads as a non-negative integer, as a 7-digit barcode text
  does.\<close>

definition numericFrom :: "ReturnRow \<Rightarrow> bool" where
  "numericFrom row = (case Number_str (From row) of Fin a \<Rightarrow> 0 \<le> a | NaN \<Rightarrow> False)"

text \<open>An exclusion index whose ranges are all well-formed.\<close>

definition wfIndex :: "(string \<rightharpoonup> NumRange list) \<Rightarrow> bool" where
  "wfIndex idx = (\<forall>k arr. idx k = Some arr \<longrightarrow> list_all wfRange arr)"





text \<open>A row that the main loop of \<open>buildStructuredRows\<close> takes as a dealer row: a
  non-empty dealer code and two barcodes.\<close>

definition isDealerRow :: "DealerConfig \<Rightarrow> int \<Rightarrow> Cell list \<Rightarrow> bool" where
  "isDealerRow cfg trimDigits row =
     (case detectDealerCode cfg row of
        None \<Rightarrow> False
      | Some dealer \<Rightarrow>
          dealer \<noteq> [] \<and>
          (case detectBarcodes_trim row trimDigits of (Some f, Some t) \<Rightarrow> True | _ \<Rightarrow> False))"

text \<open>Segments in merged form: each starts after the end of the one before it, with at
  least one barcode between them. The overlap of a range with a segment is what
  \<open>splitBySegments\<close> emits for it.\<close>

definition separated :: "BreakingSegment list \<Rightarrow> bool" where
  "separated segs =
     (sorted_wrt (\<lambda>a b. segEnd a + 1 < segStart b) segs \<and> (\<forall>s \<in> set segs. segStart s \<le> segEnd s))"

definition overlapQty :: "int \<Rightarrow> int \<Rightarrow> BreakingSegment \<Rightarrow> int" where
  "overlapQty f t seg =
     (if max f (segStart seg) \<le> min t (segEnd seg)
      then min t (segEnd seg) - max f (segStart seg) + 1 else 0)"

text \<open>The invariant of the loop of \<open>subtractRanges\<close>: well-formed segments inside
  \<open>T\<close>, each entirely below the next.\<close>

definition chainIn :: "int set \<Rightarrow> NumRange list \<Rightarrow> bool" where
  "chainIn T rs = ((\<forall>r \<in> set rs. wfRange r \<and> tickets r \<subseteq> T) \<and> sorted_wrt before rs)"

section \<open>Evaluation of the string functions on literals\<close>

lemma strNat_small: "n < 10 \<Longrightarrow> strNat n = [digitChar n]"
  by (simp add: strNat.simps)

lemma strNat_big: "\<not> n < 10 \<Longrightarrow> strNat n = strNat (n div 10) @ [digitChar (n mod 10)]"
  by (subst strNat.simps) simp

lemma replicate_num: "replicate (numeral k) x = x # replicate (pred_numeral k) x"
  by (simp add: numeral_eq_Suc)

lemmas js_eval = strNat_small strNat_big strInt_def digitChar_def pad7_def padStart_def
  Number_str_def trim_def isSpace_def isDigit_def parseNat_def digitVal_def digitsOnly_def
  sliceLast_def js_gt_def replicate_num

lemmas v1_eval = applyV1Exclusion_def sortIndex_def buildIndex_def indexStep_def v1Range_def
  v1Key_def normalizeBarcodeStringTo7_def orEmpty_def getOrEmpty_def excludeRow_def keyFor_def
  emitSegment_def subtractRanges_def sortByFrom_def cutSegment_def overlaps_def Let_def

section \<open>Interval subtraction\<close>

lemma wfRange_iff: "wfRange r \<longleftrightarrow> (\<exists>a b. nfrom r = Fin a \<and> nto r = Fin b \<and> a \<le> b)"
  by (auto simp: wfRange_def split: jsnum.splits)

lemma tickets_Fin [simp]: "tickets \<lparr>nfrom = Fin a, nto = Fin b\<rparr> = {a..b}"
  by (simp add: tickets_def)

lemma wfRange_Fin [simp]: "wfRange \<lparr>nfrom = Fin a, nto = Fin b\<rparr> \<longleftrightarrow> a \<le> b"
  by (simp add: wfRange_def)

lemma wfRange_cases:
  assumes "wfRange r"
  obtains a b where "r = \<lparr>nfrom = Fin a, nto = Fin b\<rparr>" "a \<le> b"
proof -
  from assms obtain a b where "nfrom r = Fin a" "nto r = Fin b" "a \<le> b"
    by (auto simp: wfRange_iff)
  then have "r = \<lparr>nfrom = Fin a, nto = Fin b\<rparr>" by (cases r) simp
  with \<open>a \<le> b\<close> show thesis using that by blast
qed

lemma overlaps_Fin [simp]:
  "overlaps \<lparr>nfrom = Fin a, nto = Fin b\<rparr> \<lparr>nfrom = Fin c, nto = Fin d\<rparr> \<longleftrightarrow> \<not> (d < a \<or> c > b)"
  by (simp add: overlaps_def js_gt_def)

lemma cutSegment_Fin:
  "cutSegment \<lparr>nfrom = Fin c, nto = Fin d\<rparr> \<lparr>nfrom = Fin a, nto = Fin b\<rparr> =
     (if d < a \<or> c > b then [\<lparr>nfrom = Fin a, nto = Fin b\<rparr>]
      else (if c > a then [\<lparr>nfrom = Fin a, nto = Fin (c - 1)\<rparr>] else [])
         @ (if d < b then [\<lparr>nfrom = Fin (d + 1), nto = Fin b\<rparr>] else []))"
  by (simp add: cutSegment_def js_gt_def)

lemma cutSegment_wf:
  assumes "wfRange e" "wfRange r" "s \<in> set (cutSegment e r)"
  shows "wfRange s \<and> tickets s \<subseteq> tickets r \<and> tickets s \<inter> tickets e = {}"
proof -
  from assms(1) obtain c d where e: "e = \<lparr>nfrom = Fin c, nto = Fin d\<rparr>" "c \<le> d" by (rule wfRange_cases)
  from assms(2) obtain a b where r: "r = \<lparr>nfrom = Fin a, nto = Fin b\<rparr>" "a \<le> b" by (rule wfRange_cases)
  from assms(3) show ?thesis
    unfolding e r cutSegment_Fin using e(2) r(2)
    by (auto split: if_splits)
qed

lemma cutSegment_sorted:
  assumes "wfRange e" "wfRange r"
  shows "sorted_wrt before (cutSegment e r)"
proof -
  from assms(1) obtain c d where e: "e = \<lparr>nfrom = Fin c, nto = Fin d\<rparr>" "c \<le> d" by (rule wfRange_cases)
  from assms(2) obtain a b where r: "r = \<lparr>nfrom = Fin a, nto = Fin b\<rparr>" "a \<le> b" by (rule wfRange_cases)
  show ?thesis
    unfolding e r cutSegment_Fin using e(2) r(2)
    by (auto simp: before_def)
qed

lemma before_mono: "before a b \<Longrightarrow> tickets a' \<subseteq> tickets a \<Longrightarrow> tickets b' \<subseteq> tickets b \<Longrightarrow> before a' b'"
  by (auto simp: before_def)

lemma sorted_wrt_concat_cut:
  assumes "sorted_wrt before rs" "\<forall>r \<in> set rs. wfRange r" "wfRange e"
  shows "sorted_wrt before (concat (map (cutSegment e) rs))"
  using assms
proof (induction rs)
  case Nil
  then show ?case by simp
next
  case (Cons r rs)
  have wr: "wfRange r" and wrs: "\<forall>r \<in> set rs. wfRange r" using Cons.prems(2) by simp_all
  have br: "\<forall>r' \<in> set rs. before r r'" and srs: "sorted_wrt before rs" using Cons.prems(1) by simp_all
  have cross: "\<forall>s \<in> set (cutSegment e r). \<forall>s' \<in> set (concat (map (cutSegment e) rs)). before s s'"
  proof (intro ballI)
    fix s s' assume s: "s \<in> set (cutSegment e r)" and s': "s' \<in> set (concat (map (cutSegment e) rs))"
    from s' obtain r' where r': "r' \<in> set rs" "s' \<in> set (cutSegment e r')" by auto
    have "before r r'" using br r'(1) by blast
    moreover have "tickets s \<subseteq> tickets r" using cutSegment_wf[OF Cons.prems(3) wr s] by blast
    moreover have "wfRange r'" using wrs r'(1) by blast
    then have "tickets s' \<subseteq> tickets r'" using cutSegment_wf[OF Cons.prems(3) _ r'(2)] by blast
    ultimately show "before s s'" by (rule before_mono)
  qed
  have h: "sorted_wrt before (cutSegment e r)" using cutSegment_sorted[OF Cons.prems(3) wr] .
  have t: "sorted_wrt before (concat (map (cutSegment e) rs))" using Cons.IH[OF srs wrs Cons.prems(3)] .
  have "concat (map (cutSegment e) (r # rs)) = cutSegment e r @ concat (map (cutSegment e) rs)" by simp
  then show ?case using h t cross by (simp only: sorted_wrt_append)
qed

lemma chainIn_step:
  assumes "chainIn T rs" "wfRange e"
  shows "chainIn T (concat (map (cutSegment e) rs))"
    and "\<forall>s \<in> set (concat (map (cutSegment e) rs)). tickets s \<inter> tickets e = {}"
    and "\<forall>s \<in> set (concat (map (cutSegment e) rs)). \<exists>r \<in> set rs. tickets s \<subseteq> tickets r"
proof -
  have wf: "\<forall>r \<in> set rs. wfRange r" using assms(1) by (simp add: chainIn_def)
  have inT: "\<forall>r \<in> set rs. tickets r \<subseteq> T" using assms(1) by (simp add: chainIn_def)
  have srt: "sorted_wrt before rs" using assms(1) by (simp add: chainIn_def)
  have *: "wfRange s \<and> tickets s \<subseteq> tickets r \<and> tickets s \<inter> tickets e = {}"
    if "r \<in> set rs" "s \<in> set (cutSegment e r)" for r s
    using cutSegment_wf[OF assms(2) _ that(2)] wf that(1) by blast
  have mem: "\<exists>r \<in> set rs. s \<in> set (cutSegment e r)" if "s \<in> set (concat (map (cutSegment e) rs))" for s
    using that by auto
  have a: "wfRange s \<and> tickets s \<subseteq> T" if "s \<in> set (concat (map (cutSegment e) rs))" for s
  proof -
    from mem[OF that] obtain r where r: "r \<in> set rs" "s \<in> set (cutSegment e r)" by blast
    from *[OF r] inT r(1) show ?thesis by blast
  qed
  have b: "sorted_wrt before (concat (map (cutSegment e) rs))"
    using sorted_wrt_concat_cut[OF srt wf assms(2)] .
  show "chainIn T (concat (map (cutSegment e) rs))"
    unfolding chainIn_def using a b by blast
  show "\<forall>s \<in> set (concat (map (cutSegment e) rs)). tickets s \<inter> tickets e = {}"
  proof
    fix s assume "s \<in> set (concat (map (cutSegment e) rs))"
    from mem[OF this] obtain r where r: "r \<in> set rs" "s \<in> set (cutSegment e r)" by blast
    from *[OF r] show "tickets s \<inter> tickets e = {}" by blast
  qed
  show "\<forall>s \<in> set (concat (map (cutSegment e) rs)). \<exists>r \<in> set rs. tickets s \<subseteq> tickets r"
  proof
    fix s assume "s \<in> set (concat (map (cutSegment e) rs))"
    from mem[OF this] obtain r where r: "r \<in> set rs" "s \<in> set (cutSegment e r)" by blast
    from *[OF r] r(1) show "\<exists>r \<in> set rs. tickets s \<subseteq> tickets r" by blast
  qed
qed

lemma chainIn_Nil [simp]: "chainIn T []"
  by (simp add: chainIn_def)

lemma subtractLoop_inv:
  assumes "chainIn T rem" "\<forall>e \<in> set es. wfRange e"
  shows "chainIn T (subtractLoop rem es)
         \<and> (\<forall>s \<in> set (subtractLoop rem es). \<forall>e \<in> set es. tickets s \<inter> tickets e = {})
         \<and> (\<forall>s \<in> set (subtractLoop rem es). \<exists>r \<in> set rem. tickets s \<subseteq> tickets r)"
  using assms
proof (induction es arbitrary: rem)
  case Nil
  then show ?case by auto
next
  case (Cons e es)
  let ?next = "concat (map (cutSegment e) rem)"
  have e: "wfRange e" using Cons.prems(2) by simp
  have es: "\<forall>e \<in> set es. wfRange e" using Cons.prems(2) by simp
  note st = chainIn_step[OF Cons.prems(1) e]
  show ?case
  proof (cases "?next = []")
    case True
    then have "subtractLoop rem (e # es) = []" by (simp del: concat_eq_Nil_conv)
    then show ?thesis by simp
  next
    case False
    then have eq: "subtractLoop rem (e # es) = subtractLoop ?next es" by (simp del: concat_eq_Nil_conv)
    note ih = Cons.IH[OF st(1) es]
    have ih1: "chainIn T (subtractLoop ?next es)" using ih by blast
    have ih2: "tickets s \<inter> tickets e' = {}" if "s \<in> set (subtractLoop ?next es)" "e' \<in> set es" for s e'
      using ih that by blast
    have ih3: "\<exists>r \<in> set ?next. tickets s \<subseteq> tickets r" if "s \<in> set (subtractLoop ?next es)" for s
      using ih that by blast
    have sub: "(\<exists>r \<in> set rem. tickets s \<subseteq> tickets r) \<and> tickets s \<inter> tickets e = {}"
      if "s \<in> set (subtractLoop ?next es)" for s
    proof -
      from ih3[OF that] obtain r where r: "r \<in> set ?next" "tickets s \<subseteq> tickets r" by blast
      from st(3) r(1) obtain r0 where r0: "r0 \<in> set rem" "tickets r \<subseteq> tickets r0" by blast
      have "tickets r \<inter> tickets e = {}" using st(2) r(1) by blast
      then have "tickets s \<inter> tickets e = {}" using r(2) by blast
      moreover have "tickets s \<subseteq> tickets r0" using r(2) r0(2) by blast
      ultimately show ?thesis using r0(1) by blast
    qed
    have c2: "\<forall>s \<in> set (subtractLoop ?next es). \<forall>e' \<in> set (e # es). tickets s \<inter> tickets e' = {}"
    proof (intro ballI)
      fix s e' assume s: "s \<in> set (subtractLoop ?next es)" and e': "e' \<in> set (e # es)"
      show "tickets s \<inter> tickets e' = {}"
      proof (cases "e' = e")
        case True
        then show ?thesis using sub[OF s] by blast
      next
        case False
        then have "e' \<in> set es" using e' by simp
        then show ?thesis using ih2[OF s] by blast
      qed
    qed
    have c3: "\<forall>s \<in> set (subtractLoop ?next es). \<exists>r \<in> set rem. tickets s \<subseteq> tickets r"
      using sub by blast
    show ?thesis unfolding eq using ih1 c2 c3 by blast
  qed
qed

lemma set_insertByFrom [simp]: "set (insertByFrom x ys) = insert x (set ys)"
  by (induction ys) auto

lemma set_sortByFrom [simp]: "set (sortByFrom xs) = set xs"
  by (induction xs) (auto simp: sortByFrom_def)

lemma not_overlaps_disjoint:
  assumes "wfRange a" "wfRange b" "\<not> overlaps a b"
  shows "tickets a \<inter> tickets b = {}"
proof -
  from assms(1) obtain c d where a: "a = \<lparr>nfrom = Fin c, nto = Fin d\<rparr>" "c \<le> d" by (rule wfRange_cases)
  from assms(2) obtain e f where b: "b = \<lparr>nfrom = Fin e, nto = Fin f\<rparr>" "e \<le> f" by (rule wfRange_cases)
  show ?thesis using assms(3) unfolding a b by auto
qed

lemma before_disjoint: "before a b \<Longrightarrow> tickets a \<inter> tickets b = {}"
  by (auto simp: before_def)


text \<open>
  C1. Non-strict scope, input range of dealer \<open>030520\<close> from 1000000 with Qty 100 (to
  1000099), one V1 row of the same dealer from 1000050 to 1000059: \<open>applyV1Exclusion\<close>
  returns exactly two rows, in this order: from 1000000 with Qty 50 and from 1000060 with
  Qty 40, each with the dealer, game and draw of the input row; the remaining quantities
  add up to 90. The segments behind the rows are [1000000, 1000049] and
  [1000060, 1000099].
\<close>

theorem v1_partial_overlap_split:
  "applyV1Exclusion
     [\<lparr>DealerCode = ''030520'', Game = g, Draw = d, Qty = Fin 100, From = ''1000000''\<rparr>]
     [\<lparr>v1DealerCode = ''030520'', v1Game = vg, v1Draw = vd, v1From = ''1000050'',
       v1To = Some ''1000059'', v1Qty = Some (Fin 10)\<rparr>] False
   = [\<lparr>DealerCode = ''030520'', Game = g, Draw = d, Qty = Fin 50, From = ''1000000''\<rparr>,
      \<lparr>DealerCode = ''030520'', Game = g, Draw = d, Qty = Fin 40, From = ''1000060''\<rparr>]
   \<and> subtractRanges \<lparr>nfrom = Fin 1000000, nto = Fin 1000099\<rparr>
         [\<lparr>nfrom = Fin 1000050, nto = Fin 1000059\<rparr>]
       = [\<lparr>nfrom = Fin 1000000, nto = Fin 1000049\<rparr>, \<lparr>nfrom = Fin 1000060, nto = Fin 1000099\<rparr>]
   \<and> js_add (Fin 50) (Fin 40) = Fin 90"
  by (simp add: v1_eval js_eval)

theorem v1_partial_overlap_split_witness:
  "applyV1Exclusion
     [\<lparr>DealerCode = ''030520'', Game = ''LWM'', Draw = ''05/12/2025'', Qty = Fin 100, From = ''1000000''\<rparr>]
     [\<lparr>v1DealerCode = ''030520'', v1Game = None, v1Draw = None, v1From = ''1000050'',
       v1To = Some ''1000059'', v1Qty = Some (Fin 10)\<rparr>] False
   = [\<lparr>DealerCode = ''030520'', Game = ''LWM'', Draw = ''05/12/2025'', Qty = Fin 50, From = ''1000000''\<rparr>,
      \<lparr>DealerCode = ''030520'', Game = ''LWM'', Draw = ''05/12/2025'', Qty = Fin 40, From = ''1000060''\<rparr>]"
  using v1_partial_overlap_split [of "''LWM''" "''05/12/2025''" None None] by simp

lemma subtractRanges_props:
  assumes "wfRange base" and "list_all wfRange excludes"
  shows "(\<forall>s \<in> set (subtractRanges base excludes). wfRange s \<and> tickets s \<subseteq> tickets base)
       \<and> (\<forall>i j. i < j \<and> j < length (subtractRanges base excludes) \<longrightarrow>
             tickets (subtractRanges base excludes ! i) \<inter> tickets (subtractRanges base excludes ! j) = {})
       \<and> (\<forall>s \<in> set (subtractRanges base excludes). \<forall>e \<in> set excludes. tickets s \<inter> tickets e = {})"
proof -
  let ?ex = "sortByFrom (filter (overlaps base) excludes)"
  let ?out = "subtractRanges base excludes"
  have wfex: "\<forall>e \<in> set excludes. wfRange e" using assms(2) by (simp add: list_all_iff)
  have c0: "chainIn (tickets base) [base]" using assms(1) by (simp add: chainIn_def)
  have inv: "chainIn (tickets base) ?out
         \<and> (\<forall>s \<in> set ?out. \<forall>e \<in> set ?ex. tickets s \<inter> tickets e = {})"
    using subtractLoop_inv[OF c0, of ?ex] wfex by (simp add: subtractRanges_def)
  have p1: "\<forall>s \<in> set ?out. wfRange s \<and> tickets s \<subseteq> tickets base"
    using inv by (simp add: chainIn_def)
  have p2: "tickets (?out ! i) \<inter> tickets (?out ! j) = {}" if "i < j" "j < length ?out" for i j
  proof -
    have "sorted_wrt before ?out" using inv by (simp add: chainIn_def)
    then have "before (?out ! i) (?out ! j)" using that by (simp add: sorted_wrt_nth_less)
    then show ?thesis by (rule before_disjoint)
  qed
  have p3: "tickets s \<inter> tickets e = {}" if "s \<in> set ?out" "e \<in> set excludes" for s e
  proof (cases "overlaps base e")
    case True
    then have "e \<in> set ?ex" using that(2) by simp
    then show ?thesis using inv that(1) by blast
  next
    case False
    then have "tickets base \<inter> tickets e = {}"
      using not_overlaps_disjoint assms(1) wfex that(2) by blast
    then show ?thesis using p1 that(1) by blast
  qed
  show ?thesis using p1 p2 p3 by blast
qed

text \<open>
  C2. For a base range with integer bounds \<open>from \<le> to\<close> and a list of exclusion ranges
  (each with integer bounds \<open>from \<le> to\<close>, as \<open>applyV1Exclusion\<close> normalises them), every
  segment returned by \<open>subtractRanges\<close> is a well-formed range inside the base range, two
  returned segments at different positions share no ticket, and no returned segment shares
  a ticket with any exclusion range.
\<close>

theorem subtractRanges_sound:
  assumes "wfRange base" and "list_all wfRange excludes"
  shows "(\<forall>s \<in> set (subtractRanges base excludes). wfRange s \<and> tickets s \<subseteq> tickets base)
       \<and> (\<forall>i j. i < j \<and> j < length (subtractRanges base excludes) \<longrightarrow>
             tickets (subtractRanges base excludes ! i) \<inter> tickets (subtractRanges base excludes ! j) = {})
       \<and> (\<forall>s \<in> set (subtractRanges base excludes). \<forall>e \<in> set excludes. tickets s \<inter> tickets e = {})"
  using assms by (rule subtractRanges_props)

theorem subtractRanges_sound_witness:
  "wfRange \<lparr>nfrom = Fin 0, nto = Fin 10\<rparr>
   \<and> list_all wfRange [\<lparr>nfrom = Fin 8, nto = Fin 12\<rparr>, \<lparr>nfrom = Fin 3, nto = Fin 4\<rparr>]
   \<and> subtractRanges \<lparr>nfrom = Fin 0, nto = Fin 10\<rparr>
        [\<lparr>nfrom = Fin 8, nto = Fin 12\<rparr>, \<lparr>nfrom = Fin 3, nto = Fin 4\<rparr>]
      = [\<lparr>nfrom = Fin 0, nto = Fin 2\<rparr>, \<lparr>nfrom = Fin 5, nto = Fin 7\<rparr>]
   \<and> tickets \<lparr>nfrom = Fin 0, nto = Fin 2\<rparr> \<subseteq> tickets \<lparr>nfrom = Fin 0, nto = Fin 10\<rparr>
   \<and> tickets \<lparr>nfrom = Fin 5, nto = Fin 7\<rparr> \<subseteq> tickets \<lparr>nfrom = Fin 0, nto = Fin 10\<rparr>
   \<and> tickets \<lparr>nfrom = Fin 0, nto = Fin 2\<rparr> \<inter> tickets \<lparr>nfrom = Fin 5, nto = Fin 7\<rparr> = {}
   \<and> tickets \<lparr>nfrom = Fin 5, nto = Fin 7\<rparr> \<inter> tickets \<lparr>nfrom = Fin 8, nto = Fin 12\<rparr> = {}
   \<and> tickets \<lparr>nfrom = Fin 0, nto = Fin 2\<rparr> \<inter> tickets \<lparr>nfrom = Fin 3, nto = Fin 4\<rparr> = {}"
proof -
  let ?b = "\<lparr>nfrom = Fin 0, nto = Fin 10\<rparr>"
  let ?ex = "[\<lparr>nfrom = Fin 8, nto = Fin 12\<rparr>, \<lparr>nfrom = Fin 3, nto = Fin 4\<rparr>]"
  have wb: "wfRange ?b" by simp
  have wex: "list_all wfRange ?ex" by simp
  have out: "subtractRanges ?b ?ex = [\<lparr>nfrom = Fin 0, nto = Fin 2\<rparr>, \<lparr>nfrom = Fin 5, nto = Fin 7\<rparr>]"
    by (simp add: subtractRanges_def sortByFrom_def cutSegment_Fin js_gt_def)
  note th = subtractRanges_sound [OF wb wex, unfolded out]
  have a: "tickets \<lparr>nfrom = Fin 0, nto = Fin 2\<rparr> \<subseteq> tickets ?b"
    and b: "tickets \<lparr>nfrom = Fin 5, nto = Fin 7\<rparr> \<subseteq> tickets ?b"
    using th by simp_all
  have c: "tickets \<lparr>nfrom = Fin 0, nto = Fin 2\<rparr> \<inter> tickets \<lparr>nfrom = Fin 5, nto = Fin 7\<rparr> = {}"
    using th by simp
  have d: "tickets \<lparr>nfrom = Fin 5, nto = Fin 7\<rparr> \<inter> tickets \<lparr>nfrom = Fin 8, nto = Fin 12\<rparr> = {}"
    and e: "tickets \<lparr>nfrom = Fin 0, nto = Fin 2\<rparr> \<inter> tickets \<lparr>nfrom = Fin 3, nto = Fin 4\<rparr> = {}"
    using th by simp_all
  show ?thesis using wb wex out a b c d e by blast
qed

section \<open>Barcode normalisation\<close>

lemma digitVal_digitChar: "d < 10 \<Longrightarrow> digitVal (digitChar d) = d"
proof -
  assume "d < 10"
  then have "d \<in> {0,1,2,3,4,5,6,7,8,9}" by auto
  then show ?thesis by (auto simp: digitVal_def digitChar_def)
qed

lemma isDigit_digitChar: "d < 10 \<Longrightarrow> isDigit (digitChar d)"
proof -
  assume "d < 10"
  then have "d \<in> {0,1,2,3,4,5,6,7,8,9}" by auto
  then show ?thesis by (auto simp: isDigit_def digitChar_def)
qed

lemma isDigit_not_space: "isDigit c \<Longrightarrow> \<not> isSpace c"
  by (auto simp: isDigit_def isSpace_def)

lemma isDigit_not_sign: "isDigit c \<Longrightarrow> c \<noteq> CHR ''-'' \<and> c \<noteq> CHR ''+'' \<and> c \<noteq> CHR ''e'' \<and> c \<noteq> CHR ''E''"
  by (auto simp: isDigit_def)

lemma dropWhile_none: "\<forall>x \<in> set xs. \<not> P x \<Longrightarrow> dropWhile P xs = xs"
  by (cases xs) auto

lemma trim_digits: "list_all isDigit d \<Longrightarrow> trim d = d"
  by (simp add: trim_def dropWhile_none list_all_iff isDigit_not_space)

lemma digitsOnly_digits: "list_all isDigit d \<Longrightarrow> digitsOnly d = d"
  by (simp add: digitsOnly_def list_all_iff)

lemma hasE_digits: "list_all isDigit d \<Longrightarrow> \<not> hasE d"
  using isDigit_not_sign by (auto simp: hasE_def list_all_iff)

lemma toDigitsString_digits: "list_all isDigit d \<Longrightarrow> toDigitsString sci (CStr d) = d"
  by (simp add: toDigitsString_def trim_digits hasE_digits digitsOnly_digits)

lemma endsWith_append: "endsWith (xs @ d) d"
  by (simp add: endsWith_def)

lemma endsWith_sliceLast: "endsWith s d \<Longrightarrow> length d \<le> n \<Longrightarrow> endsWith (sliceLast n s) d"
  by (auto simp: endsWith_def sliceLast_def)

lemma normalizeBarcodeTo7_long:
  assumes "list_all isDigit d" "7 \<le> length d"
  shows "normalizeBarcodeTo7 sci (CStr d) p = sliceLast 7 d"
proof -
  have "d \<noteq> []" using assms(2) by auto
  then show ?thesis using assms by (simp add: normalizeBarcodeTo7_def toDigitsString_digits)
qed

lemma normalizeBarcodeTo7_short:
  assumes "list_all isDigit d" "d \<noteq> []" "length d < 7"
  shows "length (normalizeBarcodeTo7 sci (CStr d) p) = 7 \<and> endsWith (normalizeBarcodeTo7 sci (CStr d) p) d"
proof -
  let ?c = "padStart 7 (CHR ''0'') (take 2 (digitsOnly p) @ d)"
  have eq: "normalizeBarcodeTo7 sci (CStr d) p = sliceLast 7 ?c"
    using assms by (simp add: normalizeBarcodeTo7_def toDigitsString_digits Let_def)
  have len: "7 \<le> length ?c" by (simp add: padStart_def)
  have "endsWith ?c d" by (simp add: padStart_def endsWith_def)
  then have "endsWith (sliceLast 7 ?c) d" using assms(3) by (intro endsWith_sliceLast) simp_all
  moreover have "length (sliceLast 7 ?c) = 7" using len by (simp add: sliceLast_def)
  ultimately show ?thesis by (simp add: eq)
qed

lemma trimDigitsFromString_none: "t \<le> 0 \<Longrightarrow> trimDigitsFromString d t = d"
  by (simp add: trimDigitsFromString_def)

lemma trimDigitsFromString_pos: "0 < t \<Longrightarrow> trimDigitsFromString d t = drop (nat t) d"
  by (auto simp: trimDigitsFromString_def Let_def)

lemma normalizeBarcodeTo7_trim_none:
  assumes "list_all isDigit d" "d \<noteq> []" "t \<le> 0"
  shows "normalizeBarcodeTo7_trim sci (CStr d) t =
           (if 7 \<le> length d then sliceLast 7 d else padStart 7 (CHR ''0'') d)"
  using assms by (simp add: normalizeBarcodeTo7_trim_def toDigitsString_digits trimDigitsFromString_none)

lemma list_all_drop: "list_all P xs \<Longrightarrow> list_all P (drop n xs)"
  by (auto simp: list_all_iff dest: in_set_dropD)

lemma normalizeBarcodeTo7_trim_pos:
  assumes "list_all isDigit d" "0 < t"
  shows "normalizeBarcodeTo7_trim sci (CStr d) t = normalizeBarcodeTo7_trim sci (CStr (drop (nat t) d)) 0"
proof -
  have dd: "list_all isDigit (drop (nat t) d)" using assms(1) by (rule list_all_drop)
  show ?thesis
    using assms(2)
    by (auto simp: normalizeBarcodeTo7_trim_def toDigitsString_digits[OF assms(1)]
        toDigitsString_digits[OF dd] trimDigitsFromString_pos trimDigitsFromString_none Let_def)
qed

text \<open>
  C7 (as amended). For every non-empty digit string \<open>d\<close>: in the first variant, for every
  default prefix, the result is the last 7 characters of \<open>d\<close> when \<open>d\<close> has at least 7,
  and otherwise has length exactly 7 and ends with \<open>d\<close>; in the second variant the same
  holds when \<open>trimDigits \<le> 0\<close>, and for \<open>trimDigits = t > 0\<close> the result is the one for the
  string that remains after the first \<open>t\<close> digits of \<open>d\<close> are removed.
\<close>

theorem normalizeBarcodeTo7_roundtrip:
  assumes "list_all isDigit d" and "d \<noteq> []"
  shows "(7 \<le> length d \<longrightarrow> normalizeBarcodeTo7 sci (CStr d) prefix2 = sliceLast 7 d)
       \<and> (length d < 7 \<longrightarrow> length (normalizeBarcodeTo7 sci (CStr d) prefix2) = 7
                              \<and> endsWith (normalizeBarcodeTo7 sci (CStr d) prefix2) d)
       \<and> (t \<le> 0 \<and> 7 \<le> length d \<longrightarrow> normalizeBarcodeTo7_trim sci (CStr d) t = sliceLast 7 d)
       \<and> (t \<le> 0 \<and> length d < 7 \<longrightarrow> length (normalizeBarcodeTo7_trim sci (CStr d) t) = 7
                              \<and> endsWith (normalizeBarcodeTo7_trim sci (CStr d) t) d)
       \<and> (0 < t \<longrightarrow> normalizeBarcodeTo7_trim sci (CStr d) t
                       = normalizeBarcodeTo7_trim sci (CStr (drop (nat t) d)) 0)"
proof -
  have a: "7 \<le> length d \<longrightarrow> normalizeBarcodeTo7 sci (CStr d) prefix2 = sliceLast 7 d"
    using normalizeBarcodeTo7_long[OF assms(1)] by blast
  have b: "length d < 7 \<longrightarrow> length (normalizeBarcodeTo7 sci (CStr d) prefix2) = 7
                              \<and> endsWith (normalizeBarcodeTo7 sci (CStr d) prefix2) d"
    using normalizeBarcodeTo7_short[OF assms] by blast
  have c: "t \<le> 0 \<and> 7 \<le> length d \<longrightarrow> normalizeBarcodeTo7_trim sci (CStr d) t = sliceLast 7 d"
    using normalizeBarcodeTo7_trim_none[OF assms] by simp
  have d: "t \<le> 0 \<and> length d < 7 \<longrightarrow> length (normalizeBarcodeTo7_trim sci (CStr d) t) = 7
                              \<and> endsWith (normalizeBarcodeTo7_trim sci (CStr d) t) d"
    using normalizeBarcodeTo7_trim_none[OF assms] by (auto simp: padStart_def endsWith_def)
  have e: "0 < t \<longrightarrow> normalizeBarcodeTo7_trim sci (CStr d) t
                       = normalizeBarcodeTo7_trim sci (CStr (drop (nat t) d)) 0"
    using normalizeBarcodeTo7_trim_pos[OF assms(1)] by blast
  show ?thesis using a b c d e by blast
qed

lemmas parse_eval = normalizeBarcodeTo7_def normalizeBarcodeTo7_trim_def toDigitsString_def
  trimDigitsFromString_def hasE_def endsWith_def Let_def

theorem normalizeBarcodeTo7_roundtrip_witness:
  "list_all isDigit ''123456789'' \<and> ''123456789'' \<noteq> []
   \<and> normalizeBarcodeTo7 Map.empty (CStr ''123456789'') ''35'' = ''3456789''
   \<and> normalizeBarcodeTo7_trim Map.empty (CStr ''123456789'') 0 = ''3456789''
   \<and> normalizeBarcodeTo7_trim Map.empty (CStr ''123456789'') 3
       = normalizeBarcodeTo7_trim Map.empty (CStr ''456789'') 0
   \<and> list_all isDigit ''12345'' \<and> ''12345'' \<noteq> []
   \<and> length (normalizeBarcodeTo7 Map.empty (CStr ''12345'') ''35'') = 7
   \<and> endsWith (normalizeBarcodeTo7 Map.empty (CStr ''12345'') ''35'') ''12345''
   \<and> endsWith (normalizeBarcodeTo7_trim Map.empty (CStr ''12345'') 0) ''12345''"
proof -
  have h1: "list_all isDigit ''123456789''" and n1: "''123456789'' \<noteq> []"
    and h2: "list_all isDigit ''12345''" and n2: "''12345'' \<noteq> []"
    by (simp_all add: isDigit_def)
  note a = normalizeBarcodeTo7_roundtrip [OF h1 n1, of Map.empty "''35''" 0]
  note b = normalizeBarcodeTo7_roundtrip [OF h1 n1, of Map.empty "''35''" 3]
  note c = normalizeBarcodeTo7_roundtrip [OF h2 n2, of Map.empty "''35''" 0]
  have s: "sliceLast 7 ''123456789'' = ''3456789''" "drop (nat 3) ''123456789'' = ''456789''"
    by (simp_all add: sliceLast_def)
  show ?thesis using a b c h1 n1 h2 n2 by (simp add: s)
qed

text \<open>
  The round trip as stated fails in the second variant once digits are trimmed, and on the
  empty digit string, which both variants map to the empty string.
\<close>

theorem normalizeBarcodeTo7_trim_counterexample:
  "normalizeBarcodeTo7_trim Map.empty (CStr ''123456789'') 3 = ''0456789''
   \<and> sliceLast 7 ''123456789'' = ''3456789''
   \<and> normalizeBarcodeTo7_trim Map.empty (CStr ''12345'') 2 = ''0000345''
   \<and> \<not> endsWith ''0000345'' ''12345''
   \<and> normalizeBarcodeTo7 Map.empty (CStr []) ''35'' = []
   \<and> normalizeBarcodeTo7_trim Map.empty (CStr []) 0 = []"
  by (simp add: parse_eval js_eval)

section \<open>Dealer-code normalisation\<close>

lemma padStart_long: "n \<le> length s \<Longrightarrow> padStart n c s = s"
  by (simp add: padStart_def)

lemma length_padStart: "length (padStart n c s) = max n (length s)"
  by (simp add: padStart_def)

lemma list_all_padStart: "list_all P s \<Longrightarrow> P c \<Longrightarrow> list_all P (padStart n c s)"
  by (auto simp: padStart_def list_all_iff)

lemma isDigit_zero: "isDigit (CHR ''0'')"
  by (simp add: isDigit_def)

lemma list_all_digitsOnly: "list_all isDigit (digitsOnly s)"
  by (simp add: digitsOnly_def list_all_iff)

lemma dealerAliasMap_cases:
  "dealerAliasMap k = (if k = ''030802'' \<or> k = ''030589'' then Some ''030520'' else None)"
  by (simp add: dealerAliasMap_def MASTER_DEALER_CODE_def)

lemma normalizeDealerCode_fix:
  assumes "list_all isDigit r" "6 \<le> length r" "dealerAliasMap r = None"
  shows "normalizeDealerCode r = r"
proof -
  have ne: "r \<noteq> []" using assms(2) by auto
  show ?thesis
    using assms ne
    by (simp add: normalizeDealerCode_def trim_digits digitsOnly_digits padStart_long Let_def)
qed

lemma normalizeDealerCode_idem: "normalizeDealerCode (normalizeDealerCode x) = normalizeDealerCode x"
proof (cases "trim x = []")
  case True
  then have "normalizeDealerCode x = []" by (simp add: normalizeDealerCode_def)
  moreover have "normalizeDealerCode [] = []" by (simp add: normalizeDealerCode_def trim_def)
  ultimately show ?thesis by simp
next
  case False
  let ?c = "padStart 6 (CHR ''0'') (digitsOnly (trim x))"
  have dig: "list_all isDigit ?c"
    by (intro list_all_padStart list_all_digitsOnly isDigit_zero)
  have len: "6 \<le> length ?c" by (simp add: length_padStart)
  show ?thesis
  proof (cases "dealerAliasMap ?c")
    case None
    then have "normalizeDealerCode x = ?c" using False by (simp add: normalizeDealerCode_def Let_def)
    then show ?thesis using normalizeDealerCode_fix[OF dig len None] by simp
  next
    case (Some t)
    then have t: "t = ''030520''" by (simp add: dealerAliasMap_cases split: if_splits)
    have "normalizeDealerCode x = t" using False Some by (simp add: normalizeDealerCode_def Let_def)
    moreover have "normalizeDealerCode ''030520'' = ''030520''"
      by (rule normalizeDealerCode_fix) (simp_all add: isDigit_def dealerAliasMap_cases)
    ultimately show ?thesis using t by simp
  qed
qed

lemma normalizeDealerCodeDynamic_idem:
  assumes "aliasesResolved m"
  shows "normalizeDealerCodeDynamic m (normalizeDealerCodeDynamic m x) = normalizeDealerCodeDynamic m x"
proof (cases "m (padStart 6 (CHR ''0'') x)")
  case None
  let ?c = "padStart 6 (CHR ''0'') x"
  have r: "normalizeDealerCodeDynamic m x = ?c" using None by (simp add: normalizeDealerCodeDynamic_def)
  have "padStart 6 (CHR ''0'') ?c = ?c" by (rule padStart_long) (simp add: length_padStart)
  then have "normalizeDealerCodeDynamic m ?c = ?c" using None by (simp add: normalizeDealerCodeDynamic_def)
  then show ?thesis using r by simp
next
  case (Some t)
  then have r: "normalizeDealerCodeDynamic m x = t" by (simp add: normalizeDealerCodeDynamic_def)
  from assms Some have t: "6 \<le> length t" "m t = None" by (auto simp: aliasesResolved_def)
  have "padStart 6 (CHR ''0'') t = t" using t(1) by (rule padStart_long)
  then have "normalizeDealerCodeDynamic m t = t" using t(2) by (simp add: normalizeDealerCodeDynamic_def)
  then show ?thesis using r by simp
qed

text \<open>On a digit-string input under a resolved table, both the key looked up and the
  result are digit strings of at least six characters.\<close>

lemma normalizeDealerCodeDynamic_digits:
  assumes "aliasesResolved m" "list_all isDigit x"
  shows "list_all isDigit (padStart 6 (CHR ''0'') x)
         \<and> list_all isDigit (normalizeDealerCodeDynamic m x)
         \<and> 6 \<le> length (normalizeDealerCodeDynamic m x)"
proof -
  let ?c = "padStart 6 (CHR ''0'') x"
  have c: "list_all isDigit ?c" using assms(2) isDigit_zero by (rule list_all_padStart)
  have l: "6 \<le> length ?c" by (simp add: length_padStart)
  show ?thesis
  proof (cases "m ?c")
    case None
    then have "normalizeDealerCodeDynamic m x = ?c" by (simp add: normalizeDealerCodeDynamic_def)
    then show ?thesis using c l by simp
  next
    case (Some t)
    then have "normalizeDealerCodeDynamic m x = t" by (simp add: normalizeDealerCodeDynamic_def)
    moreover from assms(1) Some have "6 \<le> length t" "list_all isDigit t"
      by (auto simp: aliasesResolved_def)
    ultimately show ?thesis using c by simp
  qed
qed

text \<open>
  C8 (as amended). \<open>normalizeDealerCode\<close> with the built-in alias table is idempotent for
  every input. \<open>normalizeDealerCodeDynamic\<close> is idempotent for every input made of digits,
  under every alias table of the store in which each alias target is a code of at least
  six digits that is not itself an alias; there its result is again made of digits, so both
  calls look up digit keys only.
\<close>

theorem dealer_normalization_idempotent:
  "normalizeDealerCode (normalizeDealerCode x) = normalizeDealerCode x
   \<and> (aliasesResolved m \<and> list_all isDigit y \<longrightarrow>
        list_all isDigit (normalizeDealerCodeDynamic m y)
        \<and> normalizeDealerCodeDynamic m (normalizeDealerCodeDynamic m y) = normalizeDealerCodeDynamic m y)"
  using normalizeDealerCode_idem normalizeDealerCodeDynamic_idem normalizeDealerCodeDynamic_digits
  by blast

lemma aliasesResolved_dealerAliasMap: "aliasesResolved dealerAliasMap"
  by (auto simp: aliasesResolved_def dealerAliasMap_cases MASTER_DEALER_CODE_def isDigit_def
      split: if_splits)

theorem dealer_normalization_idempotent_witness:
  "aliasesResolved dealerAliasMap
   \<and> list_all isDigit ''30589''
   \<and> normalizeDealerCodeDynamic dealerAliasMap ''30589'' = ''030520''
   \<and> normalizeDealerCodeDynamic dealerAliasMap (normalizeDealerCodeDynamic dealerAliasMap ''30589'')
       = ''030520''
   \<and> normalizeDealerCode '' 30-589 '' = ''030520''
   \<and> normalizeDealerCode (normalizeDealerCode '' 30-589 '') = ''030520''"
proof -
  have a: "normalizeDealerCodeDynamic dealerAliasMap ''30589'' = ''030520''"
    by (simp add: normalizeDealerCodeDynamic_def dealerAliasMap_cases padStart_def)
  have b: "normalizeDealerCode '' 30-589 '' = ''030520''"
    by (simp add: normalizeDealerCode_def dealerAliasMap_cases js_eval)
  have c: "list_all isDigit ''30589''" by (simp add: isDigit_def)
  show ?thesis
    using dealer_normalization_idempotent [of "'' 30-589 ''" dealerAliasMap "''30589''"]
      aliasesResolved_dealerAliasMap a b c by simp
qed

text \<open>
  With the chained table 030589 \<rightarrow> 030802 \<rightarrow> 030520, which the alias editor accepts,
  normalising twice differs from normalising once.
\<close>

theorem dealer_alias_chain_counterexample:
  "normalizeDealerCodeDynamic [''030589'' \<mapsto> ''030802'', ''030802'' \<mapsto> ''030520''] ''030589'' = ''030802''
   \<and> normalizeDealerCodeDynamic [''030589'' \<mapsto> ''030802'', ''030802'' \<mapsto> ''030520'']
        (normalizeDealerCodeDynamic [''030589'' \<mapsto> ''030802'', ''030802'' \<mapsto> ''030520''] ''030589'')
      = ''030520''"
  by (simp add: normalizeDealerCodeDynamic_def padStart_def)

section \<open>Two-barcode detection\<close>

lemma firstTwo_both: "firstTwo xs = (Some f, Some t) \<Longrightarrow> \<exists>rest. xs = f # t # rest"
  by (cases xs rule: firstTwo.cases) auto

lemma detectBarcodes_sync_eq: "detectBarcodes_sync row = detectBarcodes row"
proof (cases "sort (barcodeNums row)" rule: firstTwo.cases)
  case 1
  then have "barcodeNums row = []" by (metis length_0_conv length_sort)
  then show ?thesis by (simp add: detectBarcodes_sync_def detectBarcodes_def)
next
  case (2 a)
  then have "barcodeNums row \<noteq> []" by auto
  then show ?thesis using 2 by (simp add: detectBarcodes_sync_def detectBarcodes_def Let_def)
next
  case (3 a b rest)
  then have "barcodeNums row \<noteq> []" by auto
  then show ?thesis using 3 by (simp add: detectBarcodes_sync_def detectBarcodes_def Let_def)
qed

lemma mset_map_filter:
  "mset (List.map_filter g xs) = image_mset (the \<circ> g) (filter_mset (\<lambda>x. g x \<noteq> None) (mset xs))"
  by (simp add: List.map_filter_def)

lemma barcodeNums_perm: "mset row' = mset row \<Longrightarrow> mset (barcodeNums row') = mset (barcodeNums row)"
  by (simp only: barcodeNums_def mset_map_filter)

lemma sort_cong_mset: "mset xs = mset (ys :: int list) \<Longrightarrow> sort xs = sort ys"
  by (rule properties_for_sort) simp_all

lemma detectBarcodes_perm:
  assumes "mset row' = mset row"
  shows "detectBarcodes row' = detectBarcodes row"
proof -
  have "sort (barcodeNums row') = sort (barcodeNums row)"
    by (rule sort_cong_mset[OF barcodeNums_perm[OF assms]])
  then show ?thesis by (simp only: detectBarcodes_def)
qed

lemma detectBarcodes_order:
  assumes "detectBarcodes row = (Some f, Some t)"
  shows "f \<le> t \<and> f \<in> set (barcodeNums row) \<and> (\<forall>n \<in> set (barcodeNums row). f \<le> n)
         \<and> t \<in># mset (barcodeNums row) - {#f#}
         \<and> (\<forall>n \<in># mset (barcodeNums row) - {#f#}. t \<le> n)"
proof -
  from assms have "firstTwo (sort (barcodeNums row)) = (Some f, Some t)"
    by (simp add: detectBarcodes_def)
  from firstTwo_both[OF this] obtain rest where s: "sort (barcodeNums row) = f # t # rest"
    by blast
  have srt: "sorted (f # t # rest)" using sorted_sort[of "barcodeNums row"] s by simp
  have m: "mset (barcodeNums row) = mset (f # t # rest)" using mset_sort[of "\<lambda>x. x" "barcodeNums row"] s by simp
  have st: "set (barcodeNums row) = set (f # t # rest)" using m by (rule mset_eq_setD)
  have a: "f \<le> t" using srt by simp
  have b: "f \<in> set (barcodeNums row)" using st by simp
  have c: "\<forall>n \<in> set (barcodeNums row). f \<le> n" using srt st by auto
  have d: "mset (barcodeNums row) - {#f#} = mset (t # rest)" using m by simp
  have e: "t \<in># mset (barcodeNums row) - {#f#}" unfolding d by simp
  have g: "\<forall>n \<in># mset (barcodeNums row) - {#f#}. t \<le> n" unfolding d using srt by auto
  show ?thesis using a b c e g by blast
qed

text \<open>
  C9 (as amended). Two-barcode detection is by value, not by position: both versions of
  \<open>detectBarcodes\<close> agree, the result is the same for every reordering of the row's cells,
  and when both barcodes are found, From is the smallest barcode-like number of the row and
  To the second smallest, so \<open>From \<le> To\<close> always.
\<close>

theorem detectBarcodes_smallest_two:
  "detectBarcodes_sync row = detectBarcodes row
   \<and> (mset row' = mset row \<longrightarrow> detectBarcodes row' = detectBarcodes row)
   \<and> (detectBarcodes row = (Some f, Some t) \<longrightarrow>
        f \<le> t \<and> f \<in> set (barcodeNums row) \<and> (\<forall>n \<in> set (barcodeNums row). f \<le> n)
        \<and> t \<in># mset (barcodeNums row) - {#f#}
        \<and> (\<forall>n \<in># mset (barcodeNums row) - {#f#}. t \<le> n))"
proof (intro conjI impI)
  show "detectBarcodes_sync row = detectBarcodes row" by (rule detectBarcodes_sync_eq)
  show "detectBarcodes row' = detectBarcodes row" if "mset row' = mset row"
    using that by (rule detectBarcodes_perm)
next
  assume a: "detectBarcodes row = (Some f, Some t)"
  note o = detectBarcodes_order[OF a]
  show "f \<le> t" using o by blast
  show "f \<in> set (barcodeNums row)" using o by blast
  show "\<forall>n \<in> set (barcodeNums row). f \<le> n" using o by blast
  show "t \<in># mset (barcodeNums row) - {#f#}" using o by blast
  show "\<forall>n \<in># mset (barcodeNums row) - {#f#}. t \<le> n" using o by blast
qed

lemma barcodeNums_example: "barcodeNums [CNum 2000000, CNum 1000000] = [2000000, 1000000]"
  "barcodeNums [CNum 1000000, CNum 2000000] = [1000000, 2000000]"
  by (simp_all add: barcodeNums_def List.map_filter_def toNumber_def js_eval)

text \<open>
  A row whose first barcode is the larger one is reordered, not read positionally.
\<close>

theorem detectBarcodes_positional_counterexample:
  "detectBarcodes [CNum 2000000, CNum 1000000] = (Some 1000000, Some 2000000)
   \<and> detectBarcodes_sync [CNum 2000000, CNum 1000000] = (Some 1000000, Some 2000000)"
  by (simp add: detectBarcodes_def detectBarcodes_sync_def barcodeNums_example)

theorem detectBarcodes_smallest_two_witness:
  "mset [CNum 1000000, CNum 2000000] = mset [CNum 2000000, CNum 1000000]
   \<and> detectBarcodes [CNum 2000000, CNum 1000000] = (Some 1000000, Some 2000000)
   \<and> detectBarcodes [CNum 1000000, CNum 2000000] = (Some 1000000, Some 2000000)
   \<and> detectBarcodes_sync [CNum 2000000, CNum 1000000] = (Some 1000000, Some 2000000)
   \<and> (1000000 :: int) \<le> 2000000"
proof -
  have p: "mset [CNum 1000000, CNum 2000000] = mset [CNum 2000000, CNum 1000000]" by simp
  have v: "detectBarcodes [CNum 2000000, CNum 1000000] = (Some 1000000, Some 2000000)"
    by (simp add: detectBarcodes_def barcodeNums_example)
  note th = detectBarcodes_smallest_two
    [of "[CNum 2000000, CNum 1000000]" "[CNum 1000000, CNum 2000000]" 1000000 2000000]
  have w: "detectBarcodes [CNum 1000000, CNum 2000000] = detectBarcodes [CNum 2000000, CNum 1000000]"
    using th p by blast
  have s: "detectBarcodes_sync [CNum 2000000, CNum 1000000] = detectBarcodes [CNum 2000000, CNum 1000000]"
    using th by blast
  have le: "(1000000 :: int) \<le> 2000000" using th v by blast
  show ?thesis
    apply (intro conjI)
        apply (rule p)
       apply (rule v)
      apply (simp only: w v)
     apply (simp only: s v)
    apply (rule le)
    done
qed

section \<open>V1 exclusion\<close>

subsection \<open>Decimal numerals read back\<close>

lemma strNat_digits: "list_all isDigit (strNat n) \<and> strNat n \<noteq> []"
proof (induction n rule: strNat.induct)
  case (1 n)
  show ?case
  proof (cases "n < 10")
    case True
    then show ?thesis by (simp add: strNat_small isDigit_digitChar)
  next
    case False
    then have "list_all isDigit (strNat (n div 10))" using 1 by simp
    moreover have "isDigit (digitChar (n mod 10))" by (rule isDigit_digitChar) simp
    ultimately show ?thesis using False by (simp add: strNat_big)
  qed
qed

lemma parseNat_snoc: "parseNat (s @ [c]) = 10 * parseNat s + digitVal c"
  by (simp add: parseNat_def)

lemma parseNat_strNat: "parseNat (strNat n) = n"
proof (induction n rule: strNat.induct)
  case (1 n)
  show ?case
  proof (cases "n < 10")
    case True
    then show ?thesis by (simp add: strNat_small parseNat_def digitVal_digitChar)
  next
    case False
    then have "parseNat (strNat (n div 10)) = n div 10" using 1 by simp
    then show ?thesis using False by (simp add: strNat_big parseNat_snoc digitVal_digitChar)
  qed
qed

lemma foldl_zeros:
  "foldl (\<lambda>acc c. 10 * acc + digitVal c) 0 (replicate k (CHR ''0'')) = 0"
  by (induction k) (simp_all add: digitVal_def)

lemma parseNat_zeros: "parseNat (replicate k (CHR ''0'') @ s) = parseNat s"
  by (simp add: parseNat_def foldl_zeros)

lemma Number_str_digits:
  assumes "list_all isDigit s" "s \<noteq> []"
  shows "Number_str s = Fin (int (parseNat s))"
proof -
  from assms(2) obtain c cs where s: "s = c # cs" by (cases s) auto
  have c: "isDigit c" using assms(1) s by simp
  have t: "trim (c # cs) = c # cs" using trim_digits[OF assms(1)] s by simp
  have ns: "c \<noteq> CHR ''-''" "c \<noteq> CHR ''+''" using isDigit_not_sign[OF c] by simp_all
  have "list_all isDigit (c # cs)" using assms(1) s by simp
  then show ?thesis using ns unfolding s by (simp add: Number_str_def t)
qed

lemma pad7_nat_digits: "list_all isDigit (pad7 (Fin (int n))) \<and> pad7 (Fin (int n)) \<noteq> []"
  using strNat_digits[of n] by (auto simp: pad7_def strInt_def padStart_def list_all_iff isDigit_zero)

lemma Number_str_pad7: "0 \<le> a \<Longrightarrow> Number_str (pad7 (Fin a)) = Fin a"
proof -
  assume a: "0 \<le> a"
  then obtain n where n: "a = int n" by (metis nonneg_int_cases)
  have "parseNat (pad7 (Fin (int n))) = n"
    by (simp add: pad7_def strInt_def padStart_def parseNat_zeros parseNat_strNat)
  then show ?thesis using Number_str_digits[of "pad7 (Fin (int n))"] pad7_nat_digits[of n] n by simp
qed

lemma pad7_nonempty: "0 \<le> a \<Longrightarrow> pad7 (Fin a) \<noteq> []"
  using pad7_nat_digits by (metis nonneg_int_cases)

subsection \<open>The exclusion index holds well-formed ranges\<close>

lemma Number_str_normalized:
  "\<exists>n. Number_str (normalizeBarcodeStringTo7 v) = Fin (int n)"
proof (cases "digitsOnly v = []")
  case True
  then show ?thesis by (simp add: normalizeBarcodeStringTo7_def Number_str_def trim_def)
next
  case False
  let ?r = "normalizeBarcodeStringTo7 v"
  have d: "list_all isDigit (digitsOnly v)" by (rule list_all_digitsOnly)
  have "list_all isDigit ?r \<and> ?r \<noteq> []"
  proof (cases "7 \<le> length (digitsOnly v)")
    case True
    then have "?r = sliceLast 7 (digitsOnly v)" using False by (simp add: normalizeBarcodeStringTo7_def)
    moreover have "list_all isDigit (sliceLast 7 (digitsOnly v))"
      unfolding sliceLast_def using d by (rule list_all_drop)
    moreover have "sliceLast 7 (digitsOnly v) \<noteq> []" using True by (auto simp: sliceLast_def)
    ultimately show ?thesis by simp
  next
    case f: False
    then have "?r = padStart 7 (CHR ''0'') (digitsOnly v)" using False by (simp add: normalizeBarcodeStringTo7_def)
    moreover have "list_all isDigit (padStart 7 (CHR ''0'') (digitsOnly v))"
      using d isDigit_zero by (rule list_all_padStart)
    moreover have "padStart 7 (CHR ''0'') (digitsOnly v) \<noteq> []" using False by (simp add: padStart_def)
    ultimately show ?thesis by simp
  qed
  then show ?thesis using Number_str_digits by blast
qed

lemma v1Range_wf: "v1Range r = Some x \<Longrightarrow> wfRange x"
proof -
  assume a: "v1Range r = Some x"
  obtain f where f: "Number_str (normalizeBarcodeStringTo7 (v1From r)) = Fin (int f)"
    using Number_str_normalized by blast
  obtain t where t: "Number_str (normalizeBarcodeStringTo7 (orEmpty (v1To r))) = Fin (int t)"
    using Number_str_normalized by blast
  show ?thesis
  proof (cases "orEmpty (v1To r) \<noteq> []")
    case True
    then show ?thesis using a f t
      by (auto simp: v1Range_def Let_def split: if_splits)
  next
    case False
    show ?thesis
    proof (cases "v1Qty r")
      case None
      then show ?thesis using a False by (simp add: v1Range_def Let_def split: if_splits)
    next
      case (Some q)
      show ?thesis
      proof (cases q)
        case (Fin qi)
        then show ?thesis using a False Some f
          by (auto simp: v1Range_def Let_def js_gt_def split: if_splits)
      next
        case NaN
        then show ?thesis using a False Some f
          by (auto simp: v1Range_def Let_def js_gt_def split: if_splits)
      qed
    qed
  qed
qed

lemma wfIndex_getOrEmpty: "wfIndex idx \<Longrightarrow> list_all wfRange (getOrEmpty idx k)"
  by (auto simp: wfIndex_def getOrEmpty_def split: option.splits)

lemma wfIndex_step: "wfIndex idx \<Longrightarrow> wfIndex (indexStep strict idx r)"
proof -
  assume w: "wfIndex idx"
  show ?thesis
  proof (cases "v1Range r")
    case None
    then show ?thesis using w by (simp add: indexStep_def)
  next
    case (Some x)
    have x: "wfRange x" using v1Range_wf[OF Some] .
    have g: "list_all wfRange (getOrEmpty idx (v1Key r strict) @ [x])"
      using wfIndex_getOrEmpty[OF w] x by simp
    show ?thesis using Some w g by (auto simp: indexStep_def wfIndex_def Let_def)
  qed
qed

lemma wfIndex_foldl: "wfIndex idx \<Longrightarrow> wfIndex (foldl (indexStep strict) idx v1)"
  by (induction v1 arbitrary: idx) (simp_all add: wfIndex_step)

lemma wfIndex_buildIndex: "wfIndex (buildIndex strict v1)"
  unfolding buildIndex_def by (rule wfIndex_foldl) (simp add: wfIndex_def)

lemma wfIndex_sortIndex: "wfIndex idx \<Longrightarrow> wfIndex (sortIndex idx)"
  by (auto simp: wfIndex_def sortIndex_def list_all_iff)

subsection \<open>What the exclusion does to one row\<close>

lemma applyV1Exclusion_empty: "applyV1Exclusion rows [] strict = rows"
  by (simp add: applyV1Exclusion_def)

lemma excludeRow_invalid:
  "From row = [] \<or> \<not> truthy_num (Qty row) \<or> js_le (Qty row) (Fin 0) \<Longrightarrow> excludeRow idx strict row = []"
  by (auto simp: excludeRow_def Let_def)

lemma excludeRow_valid:
  assumes "From row \<noteq> []" "Qty row = Fin q" "0 < q" "Number_str (From row) = Fin a"
  shows "excludeRow idx strict row =
           concat (map (emitSegment row)
                    (subtractRanges \<lparr>nfrom = Fin a, nto = Fin (a + (q - 1))\<rparr>
                       (getOrEmpty idx (keyFor row strict))))"
  using assms by (simp add: excludeRow_def Let_def)

lemma emitSegment_Fin:
  "lo \<le> hi \<Longrightarrow> emitSegment row \<lparr>nfrom = Fin lo, nto = Fin hi\<rparr> =
     [\<lparr>DealerCode = DealerCode row, Game = Game row, Draw = Draw row,
       Qty = Fin (hi - lo + 1), From = pad7 (Fin lo)\<rparr>]"
  by (simp add: emitSegment_def Let_def)

lemma disjoint_not_overlaps:
  assumes "wfRange a" "wfRange b" "tickets a \<inter> tickets b = {}"
  shows "\<not> overlaps a b"
proof -
  from assms(1) obtain c d where a: "a = \<lparr>nfrom = Fin c, nto = Fin d\<rparr>" "c \<le> d" by (rule wfRange_cases)
  from assms(2) obtain e f where b: "b = \<lparr>nfrom = Fin e, nto = Fin f\<rparr>" "e \<le> f" by (rule wfRange_cases)
  have "{c..d} \<inter> {e..f} = {}" using assms(3) unfolding a b by simp
  then have "f < c \<or> d < e" using a(2) b(2)
    by (metis Int_iff atLeastAtMost_iff empty_iff le_cases linorder_not_le order_refl)
  then show ?thesis unfolding a b by auto
qed

lemma subtractRanges_untouched:
  assumes "wfRange s" "list_all wfRange ex" "\<forall>e \<in> set ex. tickets s \<inter> tickets e = {}"
  shows "subtractRanges s ex = [s]"
proof -
  have "\<forall>e \<in> set ex. \<not> overlaps s e"
    using assms disjoint_not_overlaps by (auto simp: list_all_iff)
  then have "filter (overlaps s) ex = []" by (simp add: filter_empty_conv)
  then show ?thesis by (simp add: subtractRanges_def sortByFrom_def)
qed

lemma keyFor_cong:
  "DealerCode r' = DealerCode r \<Longrightarrow> Game r' = Game r \<Longrightarrow> Draw r' = Draw r \<Longrightarrow> keyFor r' strict = keyFor r strict"
  by (simp add: keyFor_def Let_def)

text \<open>A row that survived the exclusion is returned unchanged by a second exclusion with
  the same index.\<close>

lemma excludeRow_fixed:
  assumes idx: "wfIndex idx" and num: "numericFrom row" and out: "out \<in> set (excludeRow idx strict row)"
  shows "excludeRow idx strict out = [out]"
proof -
  have valid: "\<not> (From row = [] \<or> \<not> truthy_num (Qty row) \<or> js_le (Qty row) (Fin 0))"
  proof
    assume "From row = [] \<or> \<not> truthy_num (Qty row) \<or> js_le (Qty row) (Fin 0)"
    then have "excludeRow idx strict row = []" by (rule excludeRow_invalid)
    then show False using out by simp
  qed
  then obtain q where q: "Qty row = Fin q" "0 < q"
    by (cases "Qty row") auto
  from num obtain a where a: "Number_str (From row) = Fin a" "0 \<le> a"
    by (auto simp: numericFrom_def split: jsnum.splits)
  have ne: "From row \<noteq> []" using valid by simp
  let ?base = "\<lparr>nfrom = Fin a, nto = Fin (a + (q - 1))\<rparr>"
  let ?ex = "getOrEmpty idx (keyFor row strict)"
  have wb: "wfRange ?base" using q(2) by simp
  have wex: "list_all wfRange ?ex" using wfIndex_getOrEmpty[OF idx] .
  note snd = subtractRanges_props[OF wb wex]
  from out obtain s where s: "s \<in> set (subtractRanges ?base ?ex)" "out \<in> set (emitSegment row s)"
    unfolding excludeRow_valid[OF ne q a(1)] by auto
  have ws: "wfRange s" and sub: "tickets s \<subseteq> tickets ?base"
    and dis: "\<forall>e \<in> set ?ex. tickets s \<inter> tickets e = {}"
    using snd s(1) by blast+
  from ws obtain lo hi where lh: "s = \<lparr>nfrom = Fin lo, nto = Fin hi\<rparr>" "lo \<le> hi" by (rule wfRange_cases)
  have lo: "0 \<le> lo" using sub a(2) lh by auto
  have o: "out = \<lparr>DealerCode = DealerCode row, Game = Game row, Draw = Draw row,
                  Qty = Fin (hi - lo + 1), From = pad7 (Fin lo)\<rparr>"
    using s(2) unfolding lh(1) emitSegment_Fin[OF lh(2)] by simp
  have k: "keyFor out strict = keyFor row strict" by (rule keyFor_cong) (simp_all add: o)
  have f1: "From out \<noteq> []" using pad7_nonempty[OF lo] by (simp add: o)
  have f2: "Qty out = Fin (hi - lo + 1)" by (simp add: o)
  have f3: "0 < hi - lo + 1" using lh(2) by simp
  have f4: "Number_str (From out) = Fin lo" using Number_str_pad7[OF lo] by (simp add: o)
  have b2: "\<lparr>nfrom = Fin lo, nto = Fin (lo + (hi - lo + 1 - 1))\<rparr> = s" unfolding lh(1) by simp
  have un: "subtractRanges s ?ex = [s]" using subtractRanges_untouched[OF ws wex dis] .
  have "excludeRow idx strict out = concat (map (emitSegment out) [s])"
    unfolding excludeRow_valid[OF f1 f2 f3 f4] k b2 un ..
  also have "\<dots> = [out]" unfolding lh(1) using emitSegment_Fin[OF lh(2), of out] by (simp add: o)
  finally show ?thesis .
qed

lemma concat_map_fixed: "\<forall>y \<in> set ys. f y = [y] \<Longrightarrow> concat (map f ys) = ys"
  by (induction ys) simp_all

text \<open>
  C3 (as amended). For rows whose From reads as a non-negative integer (as the 7-digit
  barcode text of a parsed row does), in strict and in non-strict scope and for every V1
  list, excluding twice with the same V1 list returns the rows that excluding once returns.
\<close>

theorem v1_exclusion_idempotent:
  assumes "list_all numericFrom rows"
  shows "applyV1Exclusion (applyV1Exclusion rows v1 strict) v1 strict = applyV1Exclusion rows v1 strict"
proof (cases "v1 = []")
  case True
  then show ?thesis by (simp add: applyV1Exclusion_def)
next
  case False
  let ?idx = "sortIndex (buildIndex strict v1)"
  let ?once = "concat (map (excludeRow ?idx strict) rows)"
  have w: "wfIndex ?idx" by (intro wfIndex_sortIndex wfIndex_buildIndex)
  have "\<forall>out \<in> set ?once. excludeRow ?idx strict out = [out]"
  proof
    fix out assume "out \<in> set ?once"
    then obtain row where r: "row \<in> set rows" "out \<in> set (excludeRow ?idx strict row)" by auto
    have "numericFrom row" using assms r(1) by (simp add: list_all_iff)
    then show "excludeRow ?idx strict out = [out]" using excludeRow_fixed[OF w _ r(2)] by blast
  qed
  then have "concat (map (excludeRow ?idx strict) ?once) = ?once" by (rule concat_map_fixed)
  then show ?thesis using False by (simp add: applyV1Exclusion_def)
qed

theorem v1_exclusion_idempotent_witness:
  "list_all numericFrom
     [\<lparr>DealerCode = ''030520'', Game = ''LWM'', Draw = ''05/12/2025'', Qty = Fin 100, From = ''1000000''\<rparr>]
   \<and> applyV1Exclusion
        (applyV1Exclusion
           [\<lparr>DealerCode = ''030520'', Game = ''LWM'', Draw = ''05/12/2025'', Qty = Fin 100, From = ''1000000''\<rparr>]
           [\<lparr>v1DealerCode = ''030520'', v1Game = None, v1Draw = None, v1From = ''1000050'',
             v1To = Some ''1000059'', v1Qty = None\<rparr>] False)
        [\<lparr>v1DealerCode = ''030520'', v1Game = None, v1Draw = None, v1From = ''1000050'',
          v1To = Some ''1000059'', v1Qty = None\<rparr>] False
      = [\<lparr>DealerCode = ''030520'', Game = ''LWM'', Draw = ''05/12/2025'', Qty = Fin 50, From = ''1000000''\<rparr>,
         \<lparr>DealerCode = ''030520'', Game = ''LWM'', Draw = ''05/12/2025'', Qty = Fin 40, From = ''1000060''\<rparr>]"
proof -
  let ?rows = "[\<lparr>DealerCode = ''030520'', Game = ''LWM'', Draw = ''05/12/2025'', Qty = Fin 100, From = ''1000000''\<rparr>]"
  let ?v1 = "[\<lparr>v1DealerCode = ''030520'', v1Game = None, v1Draw = None, v1From = ''1000050'',
               v1To = Some ''1000059'', v1Qty = None\<rparr>]"
  have n: "list_all numericFrom ?rows" by (simp add: numericFrom_def js_eval)
  have once: "applyV1Exclusion ?rows ?v1 False
      = [\<lparr>DealerCode = ''030520'', Game = ''LWM'', Draw = ''05/12/2025'', Qty = Fin 50, From = ''1000000''\<rparr>,
         \<lparr>DealerCode = ''030520'', Game = ''LWM'', Draw = ''05/12/2025'', Qty = Fin 40, From = ''1000060''\<rparr>]"
    by (simp add: v1_eval js_eval)
  show ?thesis using v1_exclusion_idempotent[OF n, of ?v1 False] n once by simp
qed

text \<open>
  Excluding twice does not empty the result: the rows left by the first exclusion are
  left by the second, in non-strict and in strict scope.
\<close>

theorem v1_exclusion_twice_counterexample:
  "applyV1Exclusion
     (applyV1Exclusion
        [\<lparr>DealerCode = ''030520'', Game = ''LWM'', Draw = ''05/12/2025'', Qty = Fin 100, From = ''1000000''\<rparr>]
        [\<lparr>v1DealerCode = ''030520'', v1Game = Some ''LWM'', v1Draw = Some ''05/12/2025'', v1From = ''1000050'',
          v1To = Some ''1000059'', v1Qty = None\<rparr>] False)
     [\<lparr>v1DealerCode = ''030520'', v1Game = Some ''LWM'', v1Draw = Some ''05/12/2025'', v1From = ''1000050'',
       v1To = Some ''1000059'', v1Qty = None\<rparr>] False \<noteq> []
   \<and> applyV1Exclusion
     (applyV1Exclusion
        [\<lparr>DealerCode = ''030520'', Game = ''LWM'', Draw = ''05/12/2025'', Qty = Fin 100, From = ''1000000''\<rparr>]
        [\<lparr>v1DealerCode = ''030520'', v1Game = Some ''LWM'', v1Draw = Some ''05/12/2025'', v1From = ''1000050'',
          v1To = Some ''1000059'', v1Qty = None\<rparr>] True)
     [\<lparr>v1DealerCode = ''030520'', v1Game = Some ''LWM'', v1Draw = Some ''05/12/2025'', v1From = ''1000050'',
       v1To = Some ''1000059'', v1Qty = None\<rparr>] True \<noteq> []"
  by (simp add: v1_eval js_eval)

lemmas v1_trim_eval = applyV1Exclusion_trim_def indexStep_trim_def v1Range_trim_def
  normalizeBarcodeStringTo7_trim_def trimDigitsFromString_def excludeRow_trim_def

text \<open>With a non-empty V1 list a row with an empty From, or with a quantity that is zero,
  negative or \<open>NaN\<close>, contributes nothing, whatever the exclusions are.\<close>

lemma applyV1Exclusion_drops_invalid:
  assumes "v1 \<noteq> []" "From row = [] \<or> \<not> truthy_num (Qty row) \<or> js_le (Qty row) (Fin 0)"
  shows "applyV1Exclusion (pre @ row # post) v1 strict = applyV1Exclusion (pre @ post) v1 strict"
  using assms(1) excludeRow_invalid[OF assms(2)] by (simp add: applyV1Exclusion_def Let_def)

text \<open>
  C10. With an empty V1 list \<open>applyV1Exclusion\<close> returns its input unchanged
  (\<open>applyV1Exclusion_empty\<close>), and with a non-empty list it drops rows with a non-positive
  quantity or an empty From (\<open>applyV1Exclusion_drops_invalid\<close>). A row whose From is
  not numeric is not dropped by the first variant when no exclusion is stored under its key:
  for From \<open>abc\<close>, Qty 5 and a V1 row of another dealer, the output holds a row with
  Qty \<open>NaN\<close> and From \<open>0000NaN\<close>.
\<close>

theorem v1_nonnumeric_from_not_dropped:
  "applyV1Exclusion
     [\<lparr>DealerCode = ''030520'', Game = g, Draw = d, Qty = Fin 5, From = ''abc''\<rparr>]
     [\<lparr>v1DealerCode = ''030521'', v1Game = None, v1Draw = None, v1From = ''1000000'',
       v1To = Some ''1000001'', v1Qty = None\<rparr>] False
   = [\<lparr>DealerCode = ''030520'', Game = g, Draw = d, Qty = NaN, From = ''0000NaN''\<rparr>]"
  by (simp add: v1_eval js_eval)

theorem v1_nonnumeric_from_not_dropped_witness:
  "applyV1Exclusion
     [\<lparr>DealerCode = ''030520'', Game = ''LWM'', Draw = ''05/12/2025'', Qty = Fin 5, From = ''abc''\<rparr>]
     [\<lparr>v1DealerCode = ''030521'', v1Game = None, v1Draw = None, v1From = ''1000000'',
       v1To = Some ''1000001'', v1Qty = None\<rparr>] False
   = [\<lparr>DealerCode = ''030520'', Game = ''LWM'', Draw = ''05/12/2025'', Qty = NaN, From = ''0000NaN''\<rparr>]"
  using v1_nonnumeric_from_not_dropped [of "''LWM''" "''05/12/2025''"] by simp

text \<open>The second variant of the module checks \<open>Number.isFinite(fromN)\<close> and drops the row.\<close>

lemma v1_trim_nonnumeric_from_dropped:
  "applyV1Exclusion_trim
     [\<lparr>DealerCode = ''030520'', Game = g, Draw = d, Qty = Fin 5, From = ''abc''\<rparr>]
     [\<lparr>v1DealerCode = ''030521'', v1Game = None, v1Draw = None, v1From = ''1000000'',
       v1To = Some ''1000001'', v1Qty = None\<rparr>] False 0
   = []"
  by (simp add: v1_trim_eval v1_eval js_eval)

section \<open>Emitted quantities\<close>

subsection \<open>Rows built from a range\<close>



lemma set_map_filter: "set (List.map_filter f xs) = {y. \<exists>x \<in> set xs. f x = Some y}"
  by (induction xs) (auto simp: map_filter_simps split: option.splits)







subsection \<open>The barcode text of a parsed row without exponent notation is numeric\<close>











subsection \<open>The second variant\<close>











subsection \<open>Examples, evaluated\<close>

lemmas erp_eval = buildStructuredRows_def buildStructuredRows_basic_def detectGame_def rowGame_def
  isItemCell_def detectDraw_def finalDraw_def mainRow_def mainRow_basic_def gapRow_def gapRow_basic_def
  prevDealer_def masterDealer_def detectDealerCode_def normalizeDealerCodeDynamic_def
  detectBarcodes_def detectBarcodes_trim_def trimBarcodeNumber_def barcodeNums_def toNumber_def
  hasHashMarker_def splitBySegments_def toStructuredInternal_def toStructured_def
  List.map_filter_def orEmpty_def Let_def

lemmas ret_eval = buildReturnRows_def parseReturnRow_def isEmptyRow_def rowContainsTotal_def
  toUpperCase_def upperChar_def detectDealerCode_ret_def detectFromAndQty_def qtyCandidate_def
  normalizeBarcodeTo7_def toDigitsString_def hasE_def normalizeDealerCodeDynamic_def
  List.map_filter_def Let_def

lemmas ret_trim_eval = ret_eval buildReturnRows_trim_def parseReturnRow_trim_def
  normalizeBarcodeTo7_trim_def



lemma ex_ret0:
  "buildReturnRows Map.empty Map.empty [[CStr ''30520'', CStr ''1000000'', CStr ''0'']] ''LWM'' ''05/12/2025'' ''35'' [] False
   = [\<lparr>DealerCode = ''030520'', Game = ''LWM'', Draw = ''05/12/2025'', Qty = Fin 0, From = ''1000000''\<rparr>]"
  by (simp add: ret_eval v1_eval js_eval)





text \<open>
  A text cell \<open>1e999\<close> in the barcode column reads as \<open>Infinity\<close>, so the parsed From is
  \<open>nfinity\<close>. With a V1 row of another dealer the first variant emits a record with Qty
  \<open>NaN\<close> for it; the second variant drops the row.
\<close>

lemma return_rows_infinite_cell:
  "buildReturnRows [''1e999'' \<mapsto> ''Infinity''] Map.empty [[CStr ''30520'', CStr ''1e999'', CStr ''5'']]
     ''LWM'' ''05/12/2025'' ''35''
     [\<lparr>v1DealerCode = ''030521'', v1Game = None, v1Draw = None, v1From = ''1000000'',
       v1To = Some ''1000001'', v1Qty = None\<rparr>] False
   = [\<lparr>DealerCode = ''030520'', Game = ''LWM'', Draw = ''05/12/2025'', Qty = NaN, From = ''0000NaN''\<rparr>]
   \<and> buildReturnRows_trim [''1e999'' \<mapsto> ''Infinity''] Map.empty [[CStr ''30520'', CStr ''1e999'', CStr ''5'']]
     ''LWM'' ''05/12/2025'' 0
     [\<lparr>v1DealerCode = ''030521'', v1Game = None, v1Draw = None, v1From = ''1000000'',
       v1To = Some ''1000001'', v1Qty = None\<rparr>] False
   = []"
  by (simp add: ret_trim_eval v1_trim_eval v1_eval js_eval)




section \<open>Gap attribution\<close>

subsection \<open>The dealer row above a gap marker\<close>

lemma mainRow_Some:
  assumes "mainRow cfg segs g d td (k, row) = Some x"
  shows "isDealerRow cfg td row \<and> drRowIndex (fst x) = k
         \<and> snd (detectBarcodes_trim row td) = Some (toBarcode (fst x))"
  using assms
  by (auto simp: mainRow_def isDealerRow_def split: option.splits if_splits prod.splits)

lemma mainRow_dealer:
  assumes "isDealerRow cfg td row"
  shows "\<exists>x. mainRow cfg segs g d td (k, row) = Some x"
  using assms
  by (auto simp: mainRow_def isDealerRow_def split: option.splits if_splits prod.splits)

lemma enumerate_mem: "k < length xs \<Longrightarrow> (k, xs ! k) \<in> set (enumerate 0 xs)"
  by (simp add: in_set_enumerate_eq)

lemma enumerate_nth: "p \<in> set (enumerate 0 xs) \<Longrightarrow> fst p < length xs \<and> snd p = xs ! fst p"
  by (auto simp: in_set_enumerate_eq)

lemma sort_key_head_min:
  assumes "sort_key f xs = p # rest"
  shows "p \<in> set xs \<and> (\<forall>y \<in> set xs. f p \<le> f y)"
proof -
  have s: "set xs = set (p # rest)" using assms by (metis set_sort)
  have "sorted (map f (p # rest))" using assms by (metis sorted_sort_key)
  then have "\<forall>y \<in> set (p # rest). f p \<le> f y" by auto
  then show ?thesis using s by auto
qed

lemma prevDealer_found:
  fixes data :: "Cell list list"
  defines "drs \<equiv> \<lambda>cfg segs g d td. map fst (List.map_filter (mainRow cfg segs g d td) (enumerate 0 data))"
  assumes ji: "j < i" and il: "i < length data"
    and dj: "isDealerRow cfg td (data ! j)"
    and tj: "snd (detectBarcodes_trim (data ! j) td) = Some t"
    and none: "\<forall>k. j < k \<and> k < i \<longrightarrow> \<not> isDealerRow cfg td (data ! k)"
  shows "\<exists>p. prevDealer (drs cfg segs g d td) i = Some p \<and> toBarcode p = t"
proof -
  let ?drs = "drs cfg segs g d td"
  let ?flt = "filter (\<lambda>d. drRowIndex d < i) ?drs"
  let ?key = "\<lambda>d. - int (drRowIndex d)"
  have mem: "dr \<in> set ?drs \<longleftrightarrow> (\<exists>k x. k < length data \<and> mainRow cfg segs g d td (k, data ! k) = Some x \<and> dr = fst x)" for dr
  proof
    assume "dr \<in> set ?drs"
    then obtain x ir where x: "ir \<in> set (enumerate 0 data)" "mainRow cfg segs g d td ir = Some x" "dr = fst x"
      by (auto simp: drs_def set_map_filter)
    from enumerate_nth[OF x(1)] have "ir = (fst ir, data ! fst ir)" "fst ir < length data"
      by (simp_all add: prod_eq_iff)
    then show "\<exists>k x. k < length data \<and> mainRow cfg segs g d td (k, data ! k) = Some x \<and> dr = fst x"
      using x(2,3) by metis
  next
    assume "\<exists>k x. k < length data \<and> mainRow cfg segs g d td (k, data ! k) = Some x \<and> dr = fst x"
    then obtain k x where k: "k < length data" "mainRow cfg segs g d td (k, data ! k) = Some x" "dr = fst x"
      by blast
    have "x \<in> set (List.map_filter (mainRow cfg segs g d td) (enumerate 0 data))"
      using enumerate_mem[OF k(1)] k(2) by (auto simp: set_map_filter)
    then show "dr \<in> set ?drs" using k(3) by (auto simp: drs_def)
  qed
  have jl: "j < length data" using ji il by simp
  from mainRow_dealer[OF dj] obtain xj where xj: "mainRow cfg segs g d td (j, data ! j) = Some xj" by blast
  note pj = mainRow_Some[OF xj]
  have "fst xj \<in> set ?drs" using mem jl xj by blast
  then have inflt: "fst xj \<in> set ?flt" using pj ji by simp
  then have "sort_key ?key ?flt \<noteq> []" by (metis empty_iff empty_set set_sort)
  then obtain p rest where pr: "sort_key ?key ?flt = p # rest" by (cases "sort_key ?key ?flt") auto
  note hm = sort_key_head_min[OF pr]
  have pin: "p \<in> set ?drs" and plt: "drRowIndex p < i" using hm by simp_all
  have "?key p \<le> ?key (fst xj)" using hm inflt by blast
  then have pge: "j \<le> drRowIndex p" using pj by simp
  from pin obtain k x where k: "k < length data" "mainRow cfg segs g d td (k, data ! k) = Some x" "p = fst x"
    using mem by blast
  note pk = mainRow_Some[OF k(2)]
  have kk: "drRowIndex p = k" using pk k(3) by simp
  have "k = j"
  proof (rule ccontr)
    assume "k \<noteq> j"
    then have "j < k \<and> k < i" using pge plt kk by simp
    then show False using none pk by blast
  qed
  then have "x = xj" using k(2) xj by simp
  then have "toBarcode p = t" using pj tj k(3) by simp
  moreover have "prevDealer ?drs i = Some p" using pr by (simp add: prevDealer_def)
  ultimately show ?thesis by blast
qed

lemma gap_row_emitted:
  assumes ji: "j < i" and il: "i < length data"
    and dj: "isDealerRow cfg td (data ! j)"
    and tj: "snd (detectBarcodes_trim (data ! j) td) = Some t"
    and none: "\<forall>k. j < k \<and> k < i \<longrightarrow> \<not> isDealerRow cfg td (data ! k)"
    and hash: "hasHashMarker (data ! i)"
    and si: "fst (detectBarcodes_trim (data ! i) td) = Some s"
    and gap: "t + 1 \<le> s - 1"
  shows "\<lparr>sDealerCode = masterDealer cfg, sGame = detectGame gno data,
           sDraw = finalDraw ddo (detectDraw data), sFrom = t + 1, sTo = s - 1, sQty = s - t - 1\<rparr>
         \<in> set (buildStructuredRows cfg data [] gno True ddo td)"
proof -
  let ?g = "detectGame gno data" and ?d = "finalDraw ddo (detectDraw data)"
  let ?mp = "List.map_filter (mainRow cfg [] ?g ?d td) (enumerate 0 data)"
  let ?drs = "map fst ?mp"
  let ?outMain = "concat (map snd ?mp)"
  let ?outGap = "concat (map (gapRow cfg ?drs [] ?g ?d td) (enumerate 0 data))"
  let ?ir = "\<lparr>rowIndex = of_nat i - 1 / 10, iDealerCode = masterDealer cfg, iGame = ?g, iDraw = ?d,
              iQty = s - 1 - (t + 1) + 1, iFrom = t + 1, iTo = s - 1\<rparr>"
  from prevDealer_found[OF ji il dj tj none, of "[]" ?g ?d]
  obtain p where p: "prevDealer ?drs i = Some p" "toBarcode p = t" by blast
  have "gapRow cfg ?drs [] ?g ?d td (i, data ! i) = [?ir]"
    using hash si p gap by (simp add: gapRow_def Let_def splitBySegments_def)
  then have "?ir \<in> set ?outGap" using enumerate_mem[OF il] by force
  then have "?ir \<in> set (sort_key rowIndex (?outMain @ ?outGap))" by simp
  then have "toStructuredInternal ?ir \<in> set (buildStructuredRows cfg data [] gno True ddo td)"
    unfolding buildStructuredRows_def Let_def by (simp only: if_True set_map) (rule imageI)
  moreover have "s - 1 - (t + 1) + 1 = s - t - 1" by simp
  ultimately show ?thesis by (simp add: toStructuredInternal_def)
qed

text \<open>
  C4 (as amended). In the version of \<open>buildStructuredRows\<close> with optional gap filling,
  with gap filling enabled and no availability segments: when the nearest dealer row above
  a \<open>#\<close> row (at index \<open>j\<close>, nothing taken as a dealer row between \<open>j\<close> and the marker's
  index \<open>i\<close>) has To \<open>t\<close> and the marker row's detected From is \<open>s\<close> with a non-empty gap,
  the output holds the range \<open>[t + 1, s - 1]\<close> with Qty \<open>s - t - 1\<close> whose DealerCode is the
  master dealer code. For a dealer range [100, 150] at row index 2 and a marker at row
  index 5 with From 160 this is the range [151, 159] with Qty 9.
\<close>

theorem gap_attributed_to_master:
  assumes "j < i" and "i < length data"
    and "isDealerRow cfg td (data ! j)"
    and "snd (detectBarcodes_trim (data ! j) td) = Some t"
    and "\<forall>k. j < k \<and> k < i \<longrightarrow> \<not> isDealerRow cfg td (data ! k)"
    and "hasHashMarker (data ! i)"
    and "fst (detectBarcodes_trim (data ! i) td) = Some s"
    and "t + 1 \<le> s - 1"
  shows "\<lparr>sDealerCode = masterDealer cfg, sGame = detectGame gno data,
           sDraw = finalDraw ddo (detectDraw data), sFrom = t + 1, sTo = s - 1, sQty = s - t - 1\<rparr>
         \<in> set (buildStructuredRows cfg data [] gno True ddo td)"
  using assms by (rule gap_row_emitted)

theorem gap_attributed_to_master_witness:
  "\<lparr>sDealerCode = ''030520'', sGame = ''ABC'', sDraw = [], sFrom = 151, sTo = 159, sQty = 9\<rparr>
   \<in> set (buildStructuredRows \<lparr>cachedMaster = ''030520'', cachedAliases = Map.empty\<rparr>
            [[CStr ''STOCK SUMMARY''], [CStr ''ITEM : ABC''],
             [CStr ''30539'', CStr ''9999100'', CNum 9999150], [], [],
             [CStr ''#'', CStr ''9999160'']] [] None True None 4)"
proof -
  let ?cfg = "\<lparr>cachedMaster = ''030520'', cachedAliases = Map.empty\<rparr>"
  let ?data = "[[CStr ''STOCK SUMMARY''], [CStr ''ITEM : ABC''],
             [CStr ''30539'', CStr ''9999100'', CNum 9999150], [], [],
             [CStr ''#'', CStr ''9999160'']]"
  have b2: "detectBarcodes_trim (?data ! 2) 4 = (Some 100, Some 150)"
    by (simp add: erp_eval js_eval)
  have d2: "isDealerRow ?cfg 4 (?data ! 2)"
    using b2 by (simp add: isDealerRow_def detectDealerCode_def normalizeDealerCodeDynamic_def toNumber_def js_eval)
  have t2: "snd (detectBarcodes_trim (?data ! 2) 4) = Some 150" using b2 by simp
  have n3: "\<not> isDealerRow ?cfg 4 (?data ! 3)" and n4: "\<not> isDealerRow ?cfg 4 (?data ! 4)"
    by (simp_all add: isDealerRow_def detectDealerCode_def)
  have none: "\<forall>k. 2 < k \<and> k < 5 \<longrightarrow> \<not> isDealerRow ?cfg 4 (?data ! k)"
  proof (intro allI impI)
    fix k :: nat assume "2 < k \<and> k < 5"
    then have "k = 3 \<or> k = 4" by arith
    then show "\<not> isDealerRow ?cfg 4 (?data ! k)" using n3 n4 by blast
  qed
  have h5: "hasHashMarker (?data ! 5)" by (simp add: hasHashMarker_def)
  have s5: "fst (detectBarcodes_trim (?data ! 5) 4) = Some 160" by (simp add: erp_eval js_eval)
  have m: "masterDealer ?cfg = ''030520''" by (simp add: masterDealer_def padStart_def)
  have g: "detectGame None ?data = ''ABC''" by (simp add: erp_eval js_eval)
  have dr: "finalDraw None (detectDraw ?data) = []" by (simp add: erp_eval js_eval)
  have "\<lparr>sDealerCode = masterDealer ?cfg, sGame = detectGame None ?data,
           sDraw = finalDraw None (detectDraw ?data), sFrom = 150 + 1, sTo = 160 - 1, sQty = 160 - 150 - 1\<rparr>
         \<in> set (buildStructuredRows ?cfg ?data [] None True None 4)"
    by (rule gap_attributed_to_master[of 2 5 ?data ?cfg 4 150 160 None None])
       (use d2 t2 none h5 s5 in simp_all)
  then show ?thesis by (simp add: m g dr)
qed

text \<open>
  In the version in \<open>app/lib/erpTransformer.ts\<close> the gap goes to the dealer of the dealer
  row above the marker (here 030539), not to the master dealer (here 030520).
\<close>

theorem gap_attributed_to_previous_dealer_counterexample:
  "buildStructuredRows_basic \<lparr>cachedMaster = ''030520'', cachedAliases = Map.empty\<rparr>
     [[CStr ''STOCK SUMMARY''], [CStr ''ITEM : ABC''],
      [CStr ''30539'', CStr ''1000100'', CNum 1000150], [], [],
      [CStr ''#'', CStr ''1000160'']] [] None
   = [\<lparr>vDealerCode = ''030539'', vGame = ''ABC'', vDraw = [], vQty = 51\<rparr>,
      \<lparr>vDealerCode = ''030539'', vGame = ''ABC'', vDraw = [], vQty = 9\<rparr>]"
  by (simp add: erp_eval js_eval)

section \<open>Availability segments\<close>

lemmas seg_eval = buildAvailabilitySegments_def blockSegment_trim_def buildAvailabilitySegments_merged_def
  blockSegment_def trimBarcodeNumber_def toNumber_def splitBySegments_def List.map_filter_def Let_def

text \<open>
  C6. The version of \<open>buildAvailabilitySegments\<close> with trimming sorts the blocks and does
  not merge them. For the overlapping blocks 1000000-1000099 and 1000050-1000149, whose
  union covers the range [1000000, 1000149] of 150 tickets, \<open>splitBySegments\<close> emits two
  rows of 100 tickets each: 200 in total.
\<close>

theorem overlapping_blocks_double_count:
  "buildAvailabilitySegments
     [\<lparr>blockId = ''a'', blockFrom = ''1000000'', blockTo = ''1000099''\<rparr>,
      \<lparr>blockId = ''b'', blockFrom = ''1000050'', blockTo = ''1000149''\<rparr>] 0
   = [\<lparr>segStart = 1000000, segEnd = 1000099\<rparr>, \<lparr>segStart = 1000050, segEnd = 1000149\<rparr>]
   \<and> map (\<lambda>r. (iFrom r, iTo r, iQty r))
        (splitBySegments dc 1000000 1000149 g d b
           (buildAvailabilitySegments
              [\<lparr>blockId = ''a'', blockFrom = ''1000000'', blockTo = ''1000099''\<rparr>,
               \<lparr>blockId = ''b'', blockFrom = ''1000050'', blockTo = ''1000149''\<rparr>] 0))
     = [(1000000, 1000099, 100), (1000050, 1000149, 100)]
   \<and> sum_list (map iQty
        (splitBySegments dc 1000000 1000149 g d b
           (buildAvailabilitySegments
              [\<lparr>blockId = ''a'', blockFrom = ''1000000'', blockTo = ''1000099''\<rparr>,
               \<lparr>blockId = ''b'', blockFrom = ''1000050'', blockTo = ''1000149''\<rparr>] 0)))
     = 200"
  by (simp add: seg_eval js_eval)

theorem overlapping_blocks_double_count_witness:
  "sum_list (map iQty
        (splitBySegments ''030539'' 1000000 1000149 ''ABC'' ''2025-12-05'' 3
           (buildAvailabilitySegments
              [\<lparr>blockId = ''a'', blockFrom = ''1000000'', blockTo = ''1000099''\<rparr>,
               \<lparr>blockId = ''b'', blockFrom = ''1000050'', blockTo = ''1000149''\<rparr>] 0)))
     = 200"
  using overlapping_blocks_double_count [of "''030539''" "''ABC''" "''2025-12-05''" 3] by blast

text \<open>The version in \<open>app/lib/uploadService.ts\<close> merges the two blocks, and the range is
  kept whole.\<close>

lemma merged_blocks_conserve_example:
  "buildAvailabilitySegments_merged
     [\<lparr>blockId = ''a'', blockFrom = ''1000000'', blockTo = ''1000099''\<rparr>,
      \<lparr>blockId = ''b'', blockFrom = ''1000050'', blockTo = ''1000149''\<rparr>]
   = [\<lparr>segStart = 1000000, segEnd = 1000149\<rparr>]
   \<and> sum_list (map iQty
        (splitBySegments dc 1000000 1000149 g d b
           (buildAvailabilitySegments_merged
              [\<lparr>blockId = ''a'', blockFrom = ''1000000'', blockTo = ''1000099''\<rparr>,
               \<lparr>blockId = ''b'', blockFrom = ''1000050'', blockTo = ''1000149''\<rparr>])))
     = 150"
  by (simp add: seg_eval js_eval)

subsection \<open>Merged segments conserve the quantity of a covered range\<close>

lemma splitBySegments_sum_aux:
  "sum_list (map iQty (concat (map (\<lambda>(idx, seg).
              let start = max f (segStart seg); end' = min t (segEnd seg)
              in if start \<le> end' then
                   [\<lparr>rowIndex = b + of_nat idx * (1 / 1000), iDealerCode = dc, iGame = g, iDraw = d,
                     iQty = end' - start + 1, iFrom = start, iTo = end'\<rparr>]
                 else [])
            (enumerate n segs))))
   = sum_list (map (overlapQty f t) segs)"
  by (induction segs arbitrary: n) (simp_all add: overlapQty_def Let_def)

lemma splitBySegments_sum:
  "segs \<noteq> [] \<Longrightarrow>
   sum_list (map iQty (splitBySegments dc f t g d b segs)) = sum_list (map (overlapQty f t) segs)"
  by (simp only: splitBySegments_def if_False splitBySegments_sum_aux)

lemma sorted_wrt_either:
  assumes "sorted_wrt P xs" "a \<in> set xs" "b \<in> set xs" "a \<noteq> b"
  shows "P a b \<or> P b a"
  using assms by (induction xs) auto

lemma separated_distinct: "separated segs \<Longrightarrow> distinct segs"
proof -
  assume s: "separated segs"
  have "distinct xs" if "sorted_wrt (\<lambda>a b. segEnd a + 1 < segStart b) xs" "\<forall>s \<in> set xs. segStart s \<le> segEnd s"
    for xs :: "BreakingSegment list"
    using that by (induction xs) fastforce+
  then show ?thesis using s by (simp add: separated_def)
qed

lemma sum_list_zero: "\<forall>y \<in> set xs. h y = (0::int) \<Longrightarrow> sum_list (map h xs) = 0"
  by (induction xs) simp_all

lemma sum_list_single:
  assumes "distinct xs" "\<forall>x \<in> set xs. x \<noteq> a \<longrightarrow> h x = (0::int)" "a \<in> set xs"
  shows "sum_list (map h xs) = h a"
  using assms
proof (induction xs)
  case Nil
  then show ?case by simp
next
  case (Cons x xs)
  show ?case
  proof (cases "x = a")
    case True
    then have "a \<notin> set xs" using Cons.prems(1) by simp
    then have "\<forall>y \<in> set xs. h y = 0" using Cons.prems(2) by auto
    then have "sum_list (map h xs) = 0" by (rule sum_list_zero)
    then show ?thesis using True by simp
  next
    case False
    then have "a \<in> set xs" using Cons.prems(3) by simp
    moreover have "h x = 0" using False Cons.prems(2) by simp
    ultimately show ?thesis using Cons by simp
  qed
qed

lemma covering_segment:
  assumes sep: "separated segs" and ft: "f \<le> t"
    and cov: "{f..t} \<subseteq> (\<Union>s \<in> set segs. {segStart s..segEnd s})"
  shows "\<exists>a \<in> set segs. segStart a \<le> f \<and> t \<le> segEnd a"
proof -
  have "f \<in> {f..t}" using ft by simp
  then obtain a where a: "a \<in> set segs" "segStart a \<le> f" "f \<le> segEnd a" using cov by auto
  have "t \<le> segEnd a"
  proof (rule ccontr)
    assume "\<not> t \<le> segEnd a"
    then have "segEnd a + 1 \<in> {f..t}" using a(3) by simp
    then obtain c where c: "c \<in> set segs" "segStart c \<le> segEnd a + 1" "segEnd a + 1 \<le> segEnd c"
      using cov by auto
    have wa: "segStart a \<le> segEnd a" and wc: "segStart c \<le> segEnd c"
      using sep a(1) c(1) by (simp_all add: separated_def)
    have "c \<noteq> a" using c(3) by auto
    then have "segEnd a + 1 < segStart c \<or> segEnd c + 1 < segStart a"
      using sorted_wrt_either[of "\<lambda>a b. segEnd a + 1 < segStart b" segs a c] sep a(1) c(1)
      by (auto simp: separated_def)
    then show False using c(2,3) wa wc by linarith
  qed
  then show ?thesis using a by blast
qed

lemma splitBySegments_conserves:
  assumes sep: "separated segs" and ft: "f \<le> t"
    and cov: "{f..t} \<subseteq> (\<Union>s \<in> set segs. {segStart s..segEnd s})"
  shows "sum_list (map iQty (splitBySegments dc f t g d b segs)) = t - f + 1"
proof -
  from covering_segment[OF sep ft cov] obtain a where
    a: "a \<in> set segs" "segStart a \<le> f" "t \<le> segEnd a" by blast
  have ne: "segs \<noteq> []" using a(1) by auto
  have oa: "overlapQty f t a = t - f + 1" using a(2,3) ft by (simp add: overlapQty_def)
  have others: "\<forall>c \<in> set segs. c \<noteq> a \<longrightarrow> overlapQty f t c = 0"
  proof (intro ballI impI)
    fix c assume c: "c \<in> set segs" "c \<noteq> a"
    have "segEnd a + 1 < segStart c \<or> segEnd c + 1 < segStart a"
      using sorted_wrt_either[of "\<lambda>a b. segEnd a + 1 < segStart b" segs a c] sep a(1) c
      by (auto simp: separated_def)
    then show "overlapQty f t c = 0" using a(2,3) by (auto simp: overlapQty_def)
  qed
  have "sum_list (map (overlapQty f t) segs) = overlapQty f t a"
    using sum_list_single[OF separated_distinct[OF sep] others a(1)] .
  then show ?thesis using splitBySegments_sum[OF ne] oa by simp
qed

lemma mergeLoop_separated:
  assumes "separated merged" "\<forall>s \<in> set rest. segStart s \<le> segEnd s"
  shows "separated (mergeLoop merged rest)"
  using assms
proof (induction rest arbitrary: merged)
  case Nil
  then show ?case by simp
next
  case (Cons seg rest)
  have wseg: "segStart seg \<le> segEnd seg" and wrest: "\<forall>s \<in> set rest. segStart s \<le> segEnd s"
    using Cons.prems(2) by simp_all
  show ?case
  proof (cases "merged = []")
    case True
    have "separated [seg]" using wseg by (simp add: separated_def)
    then show ?thesis using True Cons.IH[OF _ wrest] by simp
  next
    case False
    let ?l = "last merged" and ?bl = "butlast merged"
    have m: "merged = ?bl @ [?l]" using False by simp
    have sbl: "sorted_wrt (\<lambda>a b. segEnd a + 1 < segStart b) ?bl"
      and bl_l: "\<forall>x \<in> set ?bl. segEnd x + 1 < segStart ?l"
      and wbl: "\<forall>x \<in> set ?bl. segStart x \<le> segEnd x"
      and wl: "segStart ?l \<le> segEnd ?l"
      using Cons.prems(1) m
      by (metis separated_def sorted_wrt_append,
          metis separated_def sorted_wrt_append list.set_intros(1),
          metis separated_def in_set_butlastD,
          metis separated_def False last_in_set)
    show ?thesis
    proof (cases "segStart seg \<le> segEnd ?l + 1")
      case True
      let ?l' = "?l\<lparr>segEnd := max (segEnd ?l) (segEnd seg)\<rparr>"
      have "separated (?bl @ [?l'])"
        using sbl bl_l wbl wl by (auto simp: separated_def sorted_wrt_append)
      then have "separated (mergeLoop (?bl @ [?l']) rest)" using Cons.IH wrest by blast
      then show ?thesis using False True by (simp add: Let_def)
    next
      case f: False
      have "\<forall>x \<in> set merged. segEnd x + 1 < segStart seg"
      proof
        fix x assume "x \<in> set merged"
        then have "x \<in> set ?bl \<or> x = ?l" using m by (metis Un_iff insert_iff list.set(2) set_append empty_iff list.set(1))
        then show "segEnd x + 1 < segStart seg" using bl_l wl f by auto
      qed
      then have "separated (merged @ [seg])"
        using Cons.prems(1) wseg by (auto simp: separated_def sorted_wrt_append)
      then have "separated (mergeLoop (merged @ [seg]) rest)" using Cons.IH wrest by blast
      then show ?thesis using False f by (simp add: Let_def)
    qed
  qed
qed

lemma blockSegment_wf: "blockSegment b = Some s \<Longrightarrow> segStart s \<le> segEnd s"
  by (auto simp: blockSegment_def split: option.splits if_splits)

lemma buildAvailabilitySegments_merged_separated: "separated (buildAvailabilitySegments_merged blocks)"
proof -
  let ?raw = "List.map_filter blockSegment blocks"
  have w: "\<forall>s \<in> set (sort_key segStart ?raw). segStart s \<le> segEnd s"
    using blockSegment_wf by (auto simp: set_map_filter)
  have "separated []" by (simp add: separated_def)
  from mergeLoop_separated[OF this w] show ?thesis
    by (simp add: buildAvailabilitySegments_merged_def Let_def separated_def)
qed

text \<open>With the merging version of \<open>buildAvailabilitySegments\<close> the property of C6 holds:
  a range covered by the merged blocks keeps its quantity.\<close>

lemma merged_segments_conserve:
  assumes "f \<le> t"
    and "{f..t} \<subseteq> (\<Union>s \<in> set (buildAvailabilitySegments_merged blocks). {segStart s..segEnd s})"
  shows "sum_list (map iQty (splitBySegments dc f t g d b (buildAvailabilitySegments_merged blocks)))
           = t - f + 1"
  using splitBySegments_conserves[OF buildAvailabilitySegments_merged_separated assms] .

end
